theory Spec2Isabelle
  imports Main "HOL-Library.Char_ord" "HOL-Library.List_Lexorder" "HOL-Library.Multiset"
begin

section \<open>Strings\<close>

text \<open>
  A JavaScript string is a sequence of code units; here a \<^typ>\<open>string\<close> is the sequence of
  its code units, each below 256. The comparison \<open><\<close> of two JavaScript strings is the
  lexicographic order of the code units, which is the order of \<^typ>\<open>string\<close> given by
  the orders on characters and on lists.
\<close>

definition LF :: char where
  "LF = CHR 0x0A"

text \<open>\<open>s.indexOf(pat)\<close>: the least position where \<open>pat\<close> occurs in \<open>s\<close>, or \<open>-1\<close>.\<close>

definition occurs_at :: "string \<Rightarrow> string \<Rightarrow> nat \<Rightarrow> bool" where
  "occurs_at pat s i = (take (length pat) (drop i s) = pat)"

fun indexOf_from :: "string \<Rightarrow> string \<Rightarrow> nat \<Rightarrow> int" where
  "indexOf_from pat [] i = (if pat = [] then int i else - 1)"
| "indexOf_from pat (c # cs) i =
     (if take (length pat) (c # cs) = pat then int i else indexOf_from pat cs (Suc i))"

definition indexOf :: "string \<Rightarrow> string \<Rightarrow> int" where
  "indexOf s pat = indexOf_from pat s 0"

text \<open>\<open>s.substring(0, n)\<close> for \<open>0 \<le> n\<close>.\<close>

definition substring0 :: "string \<Rightarrow> nat \<Rightarrow> string" where
  "substring0 s n = take n s"

text \<open>
  \<open>s.trim()\<close> removes white space and line terminators from both ends. Among the code
  units below 256 these are TAB, LF, VT, FF, CR, SPACE and NBSP.
\<close>

definition is_space :: "char \<Rightarrow> bool" where
  "is_space c = (c \<in> set [CHR 0x09, CHR 0x0A, CHR 0x0B, CHR 0x0C, CHR 0x0D, CHR 0x20, CHR 0xA0])"

definition trim :: "string \<Rightarrow> string" where
  "trim s = rev (dropWhile is_space (rev (dropWhile is_space s)))"

text \<open>\<open>s.replace(/\n/g, " ")\<close>.\<close>

definition replace_newlines :: "string \<Rightarrow> string" where
  "replace_newlines s = map (\<lambda>c. if c = LF then CHR 0x20 else c) s"

text \<open>\<open>xs.join(sep)\<close>.\<close>

fun join :: "string \<Rightarrow> string list \<Rightarrow> string" where
  "join sep [] = []"
| "join sep [x] = x"
| "join sep (x # y # ys) = x @ sep @ join sep (y # ys)"

section \<open>Constants\<close>

definition README :: string where
  "README = ''README.md''"

definition TOKEN_START :: string where
  "TOKEN_START = ''<!-- @rnx-kit/api start -->''"

definition TOKEN_END :: string where
  "TOKEN_END = ''<!-- @rnx-kit/api end -->''"

section \<open>extractBrief\<close>

definition extractBrief :: "string \<Rightarrow> string" where
  "extractBrief summary =
     (let newParagraph = indexOf summary [LF, LF]
      in replace_newlines
           (trim (if newParagraph > 0 then substring0 summary (nat newParagraph) else summary)))"

text \<open>
  The brief as the specification words it: the text before the first blank-line break
  if there is one, the whole summary otherwise; then trimmed, line breaks turned into
  spaces.
\<close>

definition brief_spec :: "string \<Rightarrow> string" where
  "brief_spec summary =
     (let newParagraph = indexOf summary [LF, LF]
      in replace_newlines
           (trim (if newParagraph \<ge> 0 then substring0 summary (nat newParagraph) else summary)))"

section \<open>Syntax trees\<close>

text \<open>
  The parameter patterns of \<open>@babel/types\<close> (\<open>LVal\<close>). The renderer never looks at the
  elements of a destructuring pattern nor at a default value; the default value is kept as
  its source text.
\<close>

datatype LVal =
    ArrayPattern "LVal list"
  | AssignmentPattern LVal string
  | Identifier string
  | MemberExpression
  | ObjectPattern "LVal list"
  | RestElement LVal
  | TSParameterProperty

text \<open>
  The declaration wrapped by an export: a function (its \<open>id\<close>, which may be absent, and
  its parameters), an interface or a type alias (its \<open>id\<close>), or any other declaration
  (a variable, a class, an enum, ...).
\<close>

datatype Declaration =
    FunctionDeclaration "string option" "LVal list"
  | TSInterfaceDeclaration "string option"
  | TSTypeAliasDeclaration "string option"
  | OtherDeclaration

datatype Comment = CommentBlock string | CommentLine string

text \<open>
  A top-level statement: a named export with its declaration (\<open>null\<close> for
  \<open>export { a, b }\<close>) and its leading comments (\<open>null\<close> when there are none), or any
  other statement.
\<close>

datatype Node =
    ExportNamedDeclaration "Declaration option" "Comment list option"
  | OtherStatement

text \<open>
  A node of a parsed documentation comment: the content of the excerpt when the node is a
  \<open>DocExcerpt\<close>, and the child nodes.
\<close>

datatype DocNode = DocNode "string option" "DocNode list"

datatype error =
    Error string
  | SyntaxError string
  | ENOENT string

section \<open>Helpers of the task\<close>

fun findLastBlockComment_rev :: "Comment list \<Rightarrow> Comment option" where
  "findLastBlockComment_rev [] = None"
| "findLastBlockComment_rev (CommentBlock v # cs) = Some (CommentBlock v)"
| "findLastBlockComment_rev (CommentLine v # cs) = findLastBlockComment_rev cs"

text \<open>The loop runs from the last comment to the first.\<close>

definition findLastBlockComment :: "Comment list option \<Rightarrow> Comment option" where
  "findLastBlockComment comments =
     (case comments of
        None \<Rightarrow> None
      | Some cs \<Rightarrow> findLastBlockComment_rev (rev cs))"

definition comment_value :: "Comment \<Rightarrow> string" where
  "comment_value c = (case c of CommentBlock v \<Rightarrow> v | CommentLine v \<Rightarrow> v)"

definition declaration_id_name :: "string option \<Rightarrow> string" where
  "declaration_id_name ident = (case ident of None \<Rightarrow> [] | Some name \<Rightarrow> name)"

fun getExportedName :: "Node \<Rightarrow> string" where
  "getExportedName (ExportNamedDeclaration (Some (FunctionDeclaration ident ps)) cs) =
     declaration_id_name ident"
| "getExportedName (ExportNamedDeclaration (Some (TSInterfaceDeclaration ident)) cs) =
     declaration_id_name ident"
| "getExportedName (ExportNamedDeclaration (Some (TSTypeAliasDeclaration ident)) cs) =
     declaration_id_name ident"
| "getExportedName (ExportNamedDeclaration (Some OtherDeclaration) cs) = []"
| "getExportedName (ExportNamedDeclaration None cs) = []"
| "getExportedName OtherStatement = []"

fun renderDocNode :: "DocNode \<Rightarrow> string" where
  "renderDocNode (DocNode excerpt children) =
     (case excerpt of None \<Rightarrow> [] | Some content \<Rightarrow> content)
     @ concat (map renderDocNode children)"

fun renderParamNode :: "LVal \<Rightarrow> error + string" where
  "renderParamNode (ArrayPattern elements) = Inr ''[]''"
| "renderParamNode (AssignmentPattern left right) = renderParamNode left"
| "renderParamNode (Identifier name) = Inr name"
| "renderParamNode MemberExpression =
     Inl (Error ''Unsupported parameter type: MemberExpression'')"
| "renderParamNode (ObjectPattern properties) = Inr ''{}''"
| "renderParamNode (RestElement argument) =
     (case renderParamNode argument of
        Inl e \<Rightarrow> Inl e
      | Inr s \<Rightarrow> Inr (''...'' @ s))"
| "renderParamNode TSParameterProperty =
     Inl (Error ''Unsupported parameter type: TSParameterProperty'')"

text \<open>\<open>params.map(renderParamNode)\<close>: the first parameter that throws ends the map.\<close>

fun map_renderParamNode :: "LVal list \<Rightarrow> error + string list" where
  "map_renderParamNode [] = Inr []"
| "map_renderParamNode (p # ps) =
     (case renderParamNode p of
        Inl e \<Rightarrow> Inl e
      | Inr s \<Rightarrow>
          (case map_renderParamNode ps of
             Inl e \<Rightarrow> Inl e
           | Inr ss \<Rightarrow> Inr (s # ss)))"

text \<open>
  The display identifier of an export called \<open>name\<close>: for a function the signature between
  backquotes, for anything else the name.
\<close>

definition identifier_of :: "string \<Rightarrow> Declaration option \<Rightarrow> error + string" where
  "identifier_of name declaration =
     (case declaration of
        Some (FunctionDeclaration ident ps) \<Rightarrow>
          (case map_renderParamNode ps of
             Inl e \<Rightarrow> Inl e
           | Inr ss \<Rightarrow> Inr (''`'' @ name @ ''('' @ join '', '' ss @ '')`''))
      | _ \<Rightarrow> Inr name)"

definition isFunctionDeclaration :: "Declaration option \<Rightarrow> bool" where
  "isFunctionDeclaration declaration =
     (case declaration of Some (FunctionDeclaration ident ps) \<Rightarrow> True | _ \<Rightarrow> False)"

section \<open>External libraries and the world\<close>

text \<open>
  The libraries the task calls are parameters: the parser of \<open>@babel/parser\<close> (the body of
  the program of a source text, or a syntax error), the documentation parser of
  \<open>@microsoft/tsdoc\<close> (the summary section of the comment it is given), \<open>markdown-table\<close>
  and \<open>path.basename\<close>.
\<close>

record libs =
  parse :: "string \<Rightarrow> string \<Rightarrow> error + Node list"
  parseString :: "string \<Rightarrow> DocNode"
  markdownTable :: "string list list \<Rightarrow> string"
  basename :: "string \<Rightarrow> string \<Rightarrow> string"

text \<open>
  The world of a run: the files, the paths given to \<open>fs.readFileSync\<close> so far, the calls
  of \<open>fs.writeFileSync\<close> so far (path and text) and the lines written by \<open>console.warn\<close>
  so far.
\<close>

record world =
  fs :: "string \<rightharpoonup> string"
  reads :: "string list"
  writes :: "(string \<times> string) list"
  warnings :: "string list"

definition readFileSync :: "string \<Rightarrow> world \<Rightarrow> (error + string) \<times> world" where
  "readFileSync file w =
     (case fs w file of None \<Rightarrow> Inl (ENOENT file) | Some text \<Rightarrow> Inr text,
      w\<lparr>reads := reads w @ [file]\<rparr>)"

definition writeFileSync :: "string \<Rightarrow> string \<Rightarrow> world \<Rightarrow> world" where
  "writeFileSync file text w =
     w\<lparr>fs := (fs w)(file \<mapsto> text), writes := writes w @ [(file, text)]\<rparr>"

text \<open>\<open>console.warn(a, b, c)\<close> writes its arguments on one line, separated by spaces.\<close>

definition console_warn :: "string list \<Rightarrow> world \<Rightarrow> world" where
  "console_warn args w = w\<lparr>warnings := warnings w @ [join '' '' args]\<rparr>"

section \<open>Replacing the region\<close>

text \<open>
  \<open>GetSubstitution\<close> of ECMAScript, which \<open>String.prototype.replace\<close> applies to a
  replacement that is a string: \<open>$$\<close> is a dollar sign, \<open>$&\<close> the match, \<open>$`\<close> the text
  before the match, \<open>$'\<close> the text after it, \<open>$n\<close> and \<open>$nn\<close> the capture of that number
  when there is one. The pattern has no named group, so \<open>$<\<close> stands for itself.
\<close>

definition is_digit :: "char \<Rightarrow> bool" where
  "is_digit c = (CHR ''0'' \<le> c \<and> c \<le> CHR ''9'')"

definition digit_value :: "char \<Rightarrow> nat" where
  "digit_value c = of_char c - 48"

definition capture_or :: "string list \<Rightarrow> nat \<Rightarrow> string \<Rightarrow> string" where
  "capture_or captures index ref =
     (if 1 \<le> index \<and> index \<le> length captures then captures ! (index - 1) else ref)"

fun getSubstitution :: "string \<Rightarrow> string \<Rightarrow> nat \<Rightarrow> string list \<Rightarrow> string \<Rightarrow> string" where
  "getSubstitution matched str position captures [] = []"
| "getSubstitution matched str position captures [c] = [c]"
| "getSubstitution matched str position captures (c # d # t) =
     (if c \<noteq> CHR ''$'' then c # getSubstitution matched str position captures (d # t)
      else if d = CHR ''$'' then CHR ''$'' # getSubstitution matched str position captures t
      else if d = CHR 0x60 then
        take position str @ getSubstitution matched str position captures t
      else if d = CHR ''&'' then matched @ getSubstitution matched str position captures t
      else if d = CHR 0x27 then
        drop (position + length matched) str @ getSubstitution matched str position captures t
      else if is_digit d then
        (case t of
           [] \<Rightarrow>
             capture_or captures (digit_value d) [c, d]
             @ getSubstitution matched str position captures t
         | e # t' \<Rightarrow>
             if is_digit e \<and> 10 * digit_value d + digit_value e \<le> length captures
             then capture_or captures (10 * digit_value d + digit_value e) [c, d, e]
                  @ getSubstitution matched str position captures t'
             else capture_or captures (digit_value d) [c, d]
                  @ getSubstitution matched str position captures t)
      else c # getSubstitution matched str position captures (d # t))"

text \<open>
  The pattern \<open>TOKEN_START([^]+)TOKEN_END\<close>. At a position \<open>i\<close> where the start token
  stands, the greedy \<open>[^]+\<close> takes everything up to the end of the text and gives back one
  character at a time until the end token follows: the match ends with the last end token
  that leaves at least one character to the group.
\<close>

definition match_at :: "string \<Rightarrow> nat \<Rightarrow> nat option" where
  "match_at s i =
     (if occurs_at TOKEN_START s i
      then List.find (occurs_at TOKEN_END s) (rev [i + length TOKEN_START + 1 ..< Suc (length s)])
      else None)"

text \<open>The positions are tried from the left; the first that matches wins.\<close>

fun exec_from :: "string \<Rightarrow> nat list \<Rightarrow> (nat \<times> nat) option" where
  "exec_from s [] = None"
| "exec_from s (i # is) =
     (case match_at s i of
        Some j \<Rightarrow> Some (i, j)
      | None \<Rightarrow> exec_from s is)"

definition regexp_exec :: "string \<Rightarrow> (nat \<times> nat) option" where
  "regexp_exec s = exec_from s [0 ..< Suc (length s)]"

text \<open>\<open>readme.replace(new RegExp(...), replacement)\<close>: the first match only.\<close>

definition replace_region :: "string \<Rightarrow> string \<Rightarrow> string" where
  "replace_region readme replacement =
     (case regexp_exec readme of
        None \<Rightarrow> readme
      | Some (i, j) \<Rightarrow>
          (let e = j + length TOKEN_END;
               matched = take (e - i) (drop i readme);
               capture = take (j - (i + length TOKEN_START)) (drop (i + length TOKEN_START) readme)
           in take i readme
              @ getSubstitution matched readme i [capture] replacement
              @ drop e readme))"

section \<open>updateReadme\<close>

type_synonym entry = "string \<times> string \<times> string"

definition entry_category :: "entry \<Rightarrow> string" where
  "entry_category e = fst e"

definition entry_identifier :: "entry \<Rightarrow> string" where
  "entry_identifier e = fst (snd e)"

definition entry_description :: "entry \<Rightarrow> string" where
  "entry_description e = snd (snd e)"

definition sortByCategory :: "entry \<Rightarrow> entry \<Rightarrow> int" where
  "sortByCategory lhs rhs =
     (if entry_category lhs \<noteq> entry_category rhs then (if entry_category lhs < entry_category rhs then - 1 else 1)
      else if entry_identifier lhs = entry_identifier rhs then 0
      else if entry_identifier lhs < entry_identifier rhs then - 1
      else 1)"

text \<open>
  \<open>Array.prototype.sort\<close> with a comparison function is a stable sort; it is modelled by
  insertion, an element going before the first one it does not exceed.
\<close>

fun insert_sorted :: "('a \<Rightarrow> 'a \<Rightarrow> int) \<Rightarrow> 'a \<Rightarrow> 'a list \<Rightarrow> 'a list" where
  "insert_sorted cmp x [] = [x]"
| "insert_sorted cmp x (y # ys) =
     (if cmp x y \<le> 0 then x # y # ys else y # insert_sorted cmp x ys)"

definition array_sort :: "('a \<Rightarrow> 'a \<Rightarrow> int) \<Rightarrow> 'a list \<Rightarrow> 'a list" where
  "array_sort cmp xs = foldr (insert_sorted cmp) xs []"

definition row_of :: "entry \<Rightarrow> string list" where
  "row_of e = [entry_category e, entry_identifier e, entry_description e]"

definition sorted_rows :: "entry list \<Rightarrow> entry list" where
  "sorted_rows entries = array_sort sortByCategory entries"

definition render_table :: "libs \<Rightarrow> string \<Rightarrow> entry list \<Rightarrow> string" where
  "render_table l title entries =
     (if length entries = 0 then []
      else markdownTable l
             ([''Category'', title, ''Description''] # map row_of (sorted_rows entries)))"

text \<open>The text put between the markers: the tables that are not empty, a blank line between them.\<close>

definition region_text :: "libs \<Rightarrow> entry list \<Rightarrow> entry list \<Rightarrow> string" where
  "region_text l exportedTypes exportedFunctions =
     (let types = render_table l ''Type Name'' exportedTypes;
          functions = render_table l ''Function'' exportedFunctions
      in join [LF, LF] (filter (\<lambda>s. s \<noteq> []) [types, functions]))"

definition replacement_of :: "libs \<Rightarrow> entry list \<Rightarrow> entry list \<Rightarrow> string" where
  "replacement_of l exportedTypes exportedFunctions =
     TOKEN_START @ [LF, LF] @ region_text l exportedTypes exportedFunctions @ [LF, LF] @ TOKEN_END"

definition updateReadme :: "libs \<Rightarrow> entry list \<Rightarrow> entry list \<Rightarrow> world \<Rightarrow> (error + unit) \<times> world" where
  "updateReadme l exportedTypes exportedFunctions w =
     (let replacement = replacement_of l exportedTypes exportedFunctions
      in case readFileSync README w of
           (Inl e, w') \<Rightarrow> (Inl e, w')
         | (Inr readme, w') \<Rightarrow>
             (let updatedReadme = replace_region readme replacement
              in if updatedReadme \<noteq> readme
                 then (Inr (), writeFileSync README updatedReadme w')
                 else (Inr (), w')))"

section \<open>updateApiReadme\<close>

record catalog =
  exportedFunctions :: "entry list"
  exportedTypes :: "entry list"

text \<open>The body of the inner \<open>forEach\<close>, for one top-level statement of a file.\<close>

definition processNode ::
  "libs \<Rightarrow> string \<Rightarrow> string \<Rightarrow> Node \<Rightarrow> catalog \<Rightarrow> world \<Rightarrow> (error + catalog) \<times> world" where
  "processNode l file cat node c w =
     (case node of
        OtherStatement \<Rightarrow> (Inr c, w)
      | ExportNamedDeclaration declaration leadingComments \<Rightarrow>
          (let name = getExportedName node
           in if name = [] then (Inr c, w)
              else
                (case identifier_of name declaration of
                   Inl e \<Rightarrow> (Inl e, w)
                 | Inr ident \<Rightarrow>
                     (case findLastBlockComment leadingComments of
                        None \<Rightarrow>
                          (Inr c,
                           console_warn
                             [''WARN'', file @ '':'', ident @ '' is exported but undocumented''] w)
                      | Some commentBlock \<Rightarrow>
                          (let result = parseString l (''/*'' @ comment_value commentBlock @ ''*/'');
                               summary = renderDocNode result;
                               descr = extractBrief summary
                           in if isFunctionDeclaration declaration
                              then (Inr (c\<lparr>exportedFunctions :=
                                            exportedFunctions c @ [(cat, ident, descr)]\<rparr>), w)
                              else (Inr (c\<lparr>exportedTypes :=
                                            exportedTypes c @ [(cat, ident, descr)]\<rparr>), w))))))"

fun processNodes ::
  "libs \<Rightarrow> string \<Rightarrow> string \<Rightarrow> Node list \<Rightarrow> catalog \<Rightarrow> world \<Rightarrow> (error + catalog) \<times> world" where
  "processNodes l file cat [] c w = (Inr c, w)"
| "processNodes l file cat (node # nodes) c w =
     (case processNode l file cat node c w of
        (Inl e, w') \<Rightarrow> (Inl e, w')
      | (Inr c', w') \<Rightarrow> processNodes l file cat nodes c' w')"

text \<open>The body of the outer \<open>forEach\<close>, for one source file.\<close>

definition processFile ::
  "libs \<Rightarrow> string \<Rightarrow> catalog \<Rightarrow> world \<Rightarrow> (error + catalog) \<times> world" where
  "processFile l file c w =
     (let cat = basename l file ''.ts''
      in case readFileSync file w of
           (Inl e, w') \<Rightarrow> (Inl e, w')
         | (Inr content, w') \<Rightarrow>
             (case parse l content file of
                Inl e \<Rightarrow> (Inl e, w')
              | Inr body \<Rightarrow> processNodes l file cat body c w'))"

fun processFiles ::
  "libs \<Rightarrow> string list \<Rightarrow> catalog \<Rightarrow> world \<Rightarrow> (error + catalog) \<times> world" where
  "processFiles l [] c w = (Inr c, w)"
| "processFiles l (file # files) c w =
     (case processFile l file c w of
        (Inl e, w') \<Rightarrow> (Inl e, w')
      | (Inr c', w') \<Rightarrow> processFiles l files c' w')"

text \<open>
  The task, given the list of files that \<open>findSourceFiles\<close> returns (it comes from the
  project's configuration and the file system's globbing).
\<close>

definition updateApiReadme :: "libs \<Rightarrow> string list \<Rightarrow> world \<Rightarrow> (error + unit) \<times> world" where
  "updateApiReadme l sourceFiles w =
     (case processFiles l sourceFiles \<lparr>exportedFunctions = [], exportedTypes = []\<rparr> w of
        (Inl e, w') \<Rightarrow> (Inl e, w')
      | (Inr c, w') \<Rightarrow> updateReadme l (exportedTypes c) (exportedFunctions c) w')"

section \<open>Notions of the specification\<close>

text \<open>The pattern beneath the default values and rest markers of a parameter.\<close>

fun unwrap :: "LVal \<Rightarrow> LVal" where
  "unwrap (AssignmentPattern left right) = unwrap left"
| "unwrap (RestElement argument) = unwrap argument"
| "unwrap (ArrayPattern elements) = ArrayPattern elements"
| "unwrap (Identifier name) = Identifier name"
| "unwrap MemberExpression = MemberExpression"
| "unwrap (ObjectPattern properties) = ObjectPattern properties"
| "unwrap TSParameterProperty = TSParameterProperty"

text \<open>
  The five shapes the specification calls supported: an identifier, a default-valued
  pattern, an array pattern, an object pattern, a rest element.
\<close>

fun supported_shape :: "LVal \<Rightarrow> bool" where
  "supported_shape MemberExpression = False"
| "supported_shape TSParameterProperty = False"
| "supported_shape (ArrayPattern elements) = True"
| "supported_shape (AssignmentPattern left right) = True"
| "supported_shape (Identifier name) = True"
| "supported_shape (ObjectPattern properties) = True"
| "supported_shape (RestElement argument) = True"

text \<open>
  A parameter as the parser builds it: a tree made of the five supported shapes only, also
  inside its destructuring patterns, beneath its default value and beneath its rest marker.
\<close>

fun supported_tree :: "LVal \<Rightarrow> bool" where
  "supported_tree (ArrayPattern elements) = list_all supported_tree elements"
| "supported_tree (AssignmentPattern left right) = supported_tree left"
| "supported_tree (Identifier name) = True"
| "supported_tree MemberExpression = False"
| "supported_tree (ObjectPattern properties) = list_all supported_tree properties"
| "supported_tree (RestElement argument) = supported_tree argument"
| "supported_tree TSParameterProperty = False"

text \<open>The display text of a parameter, by the rules of the specification.\<close>

fun display :: "LVal \<Rightarrow> string" where
  "display (Identifier name) = name"
| "display (AssignmentPattern left right) = display left"
| "display (ArrayPattern elements) = ''[]''"
| "display (ObjectPattern properties) = ''{}''"
| "display (RestElement argument) = ''...'' @ display argument"
| "display MemberExpression = []"
| "display TSParameterProperty = []"

text \<open>
  The declarations that the catalog takes up: a function, an interface or a type alias
  that has a name.
\<close>

fun documented_kind :: "Declaration option \<Rightarrow> bool" where
  "documented_kind (Some (FunctionDeclaration (Some name) ps)) = (name \<noteq> [])"
| "documented_kind (Some (TSInterfaceDeclaration (Some name))) = (name \<noteq> [])"
| "documented_kind (Some (TSTypeAliasDeclaration (Some name))) = (name \<noteq> [])"
| "documented_kind (Some (FunctionDeclaration None ps)) = False"
| "documented_kind (Some (TSInterfaceDeclaration None)) = False"
| "documented_kind (Some (TSTypeAliasDeclaration None)) = False"
| "documented_kind (Some OtherDeclaration) = False"
| "documented_kind None = False"

text \<open>Leading comments without a block comment.\<close>

fun is_block :: "Comment \<Rightarrow> bool" where
  "is_block (CommentBlock v) = True"
| "is_block (CommentLine v) = False"

definition no_block_comment :: "Comment list option \<Rightarrow> bool" where
  "no_block_comment comments =
     (case comments of
        None \<Rightarrow> True
      | Some cs \<Rightarrow> list_all (\<lambda>c. \<not> is_block c) cs)"

text \<open>The positions of a text where a token stands.\<close>

definition occurrences :: "string \<Rightarrow> string \<Rightarrow> nat list" where
  "occurrences pat s = filter (occurs_at pat s) [0 ..< Suc (length s)]"

text \<open>A start marker with an end marker somewhere after it.\<close>

definition has_marker_pair :: "string \<Rightarrow> bool" where
  "has_marker_pair s =
     list_ex (\<lambda>i. list_ex (\<lambda>j. i + length TOKEN_START \<le> j) (occurrences TOKEN_END s))
       (occurrences TOKEN_START s)"

text \<open>A start marker with an end marker that begins at least one character after its end.\<close>

definition has_region :: "string \<Rightarrow> bool" where
  "has_region s =
     list_ex (\<lambda>i. list_ex (\<lambda>j. i + length TOKEN_START < j) (occurrences TOKEN_END s))
       (occurrences TOKEN_START s)"

text \<open>
  A statement at which the run stops: a named function export whose signature does not
  render. A file at which the run stops: one that does not parse, or holds such a
  statement.
\<close>

definition node_fatal :: "Node \<Rightarrow> bool" where
  "node_fatal node =
     (case node of
        OtherStatement \<Rightarrow> False
      | ExportNamedDeclaration declaration leadingComments \<Rightarrow>
          getExportedName node \<noteq> [] \<and> isl (identifier_of (getExportedName node) declaration))"

definition file_fatal :: "libs \<Rightarrow> world \<Rightarrow> string \<Rightarrow> bool" where
  "file_fatal l w file =
     (case fs w file of
        None \<Rightarrow> False
      | Some content \<Rightarrow>
          (case parse l content file of
             Inl e \<Rightarrow> True
           | Inr body \<Rightarrow> list_ex node_fatal body))"

section \<open>Libraries for the examples\<close>

text \<open>
  Where the model is run on an example, the libraries are these: a table renderer that
  writes one line per row and, as \<open>markdown-table\<close> does, copies the text of every cell; a
  parser that knows the syntax trees of the given source texts and rejects every other
  text; a documentation parser whose summary is the comment without its \<open>/\<close> and \<open>*\<close>; a
  \<open>basename\<close> that drops the extension.
\<close>

definition plain_table :: "string list list \<Rightarrow> string" where
  "plain_table rows = join [LF] (map (\<lambda>cells. ''| '' @ join '' | '' cells @ '' |'') rows)"

definition drop_suffix :: "string \<Rightarrow> string \<Rightarrow> string" where
  "drop_suffix file ext =
     (if drop (length file - length ext) file = ext then take (length file - length ext) file
      else file)"

definition example_libs :: "(string \<times> Node list) list \<Rightarrow> libs" where
  "example_libs sources =
     \<lparr>parse = (\<lambda>content file.
        case map_of sources content of
          None \<Rightarrow> Inl (SyntaxError file)
        | Some body \<Rightarrow> Inr body),
      parseString = (\<lambda>text.
        DocNode None [DocNode (Some (filter (\<lambda>c. c \<noteq> CHR ''/'' \<and> c \<noteq> CHR ''*'') text)) []]),
      markdownTable = plain_table,
      basename = drop_suffix\<rparr>"

definition empty_world :: "(string \<times> string) list \<Rightarrow> world" where
  "empty_world files = \<lparr>fs = map_of files, reads = [], writes = [], warnings = []\<rparr>"

text \<open>
  A project with a readme and two source files, the second of which does not parse; the
  first holds \<open>/** A number. */ export type T = number;\<close>.
\<close>

definition example_files :: "(string \<times> string) list" where
  "example_files =
     [(''README.md'', TOKEN_START @ [LF] @ ''old'' @ [LF] @ TOKEN_END),
      (''src/ok.ts'', ''/** A number. */ export type T = number;''),
      (''src/bad.ts'', ''export function ('')]"

definition example_sources :: "(string \<times> Node list) list" where
  "example_sources =
     [(''/** A number. */ export type T = number;'',
       [ExportNamedDeclaration (Some (TSTypeAliasDeclaration (Some ''T'')))
          (Some [CommentBlock ''* A number. ''])])]"

text \<open>A catalog of one documented function, and one whose description holds \<open>$1\<close>.\<close>

definition example_functions :: "entry list" where
  "example_functions = [(''math'', ''`add(a, b)`'', ''Adds two numbers.'')]"

definition dollar_functions :: "entry list" where
  "dollar_functions = [(''math'', ''`pay()`'', ''Costs $1.'')]"

text \<open>Catalogs of two types and of three functions, in the order of their source files.\<close>

definition example_types :: "entry list" where
  "example_types =
     [(''types'', ''Options'', ''Options of a run.''),
      (''config'', ''Config'', ''A configuration.'')]"

definition unsorted_functions :: "entry list" where
  "unsorted_functions =
     [(''math'', ''`sub(a, b)`'', ''Subtracts.''), (''math'', ''`add(a, b)`'', ''Adds.''),
      (''io'', ''`read()`'', ''Reads.'')]"

section \<open>extractBrief: properties\<close>

lemmas brief_defs = extractBrief_def brief_spec_def indexOf_def LF_def trim_def is_space_def
  replace_newlines_def substring0_def

text \<open>
  The code and the specification's wording give the same brief for every summary that
  does not begin with a blank-line break.
\<close>

lemma extractBrief_agrees:
  "indexOf summary [LF, LF] \<noteq> 0 \<Longrightarrow> extractBrief summary = brief_spec summary"
  by (simp add: extractBrief_def brief_spec_def Let_def)

lemma extractBrief_first_paragraph:
  "extractBrief (''First line.'' @ [LF, LF] @ ''Second paragraph.'') = ''First line.''"
  by (simp add: brief_defs)

lemma extractBrief_single_line:
  "extractBrief ''Single line only.'' = ''Single line only.''"
  by (simp add: brief_defs)

text \<open>
  Claim C2: brief extraction keeps the text before the first blank-line break when the
  summary has one, and the whole summary otherwise. The code tests \<open>newParagraph > 0\<close>, so
  for a summary that begins with the break it keeps the whole summary, second paragraph
  included, where the text before the first break is empty.
\<close>

theorem extractBrief_leading_break:
  "extractBrief ([LF, LF] @ ''First.'' @ [LF, LF] @ ''Second.'') = ''First.  Second.''
   \<and> brief_spec ([LF, LF] @ ''First.'' @ [LF, LF] @ ''Second.'') = []"
  by (simp add: brief_defs)

section \<open>Rendering parameters: properties\<close>

lemma renderParamNode_display:
  "supported_shape (unwrap p) \<Longrightarrow> renderParamNode p = Inr (display p)"
  by (induction p rule: renderParamNode.induct) auto

lemma map_renderParamNode_display:
  "list_all (\<lambda>p. supported_shape (unwrap p)) ps \<Longrightarrow> map_renderParamNode ps = Inr (map display ps)"
  by (induction ps) (auto simp: renderParamNode_display)

lemma supported_tree_unwrap: "supported_tree p \<Longrightarrow> supported_shape (unwrap p)"
  by (induction p rule: unwrap.induct) simp_all

text \<open>
  The switch as a whole: rendering raises exactly when the pattern beneath the default
  values and rest markers is a member expression or a parameter property.
\<close>

lemma renderParamNode_raises_iff:
  "isl (renderParamNode p) = (unwrap p = MemberExpression \<or> unwrap p = TSParameterProperty)"
  by (induction p rule: renderParamNode.induct) (auto split: sum.splits)

text \<open>
  Claim C4: for every exported function declaration whose parameters are identifiers,
  default-valued patterns, array patterns, object patterns and rest elements, as the
  parser builds them, the display identifier is \<open>name(p1, p2, ...)\<close> between backquotes,
  each parameter rendered by the rules of the specification: an identifier as its name, a
  default-valued parameter as its pattern, an array pattern as \<open>[]\<close>, an object pattern as
  \<open>{}\<close>, a rest parameter as \<open>...\<close> and its argument's rendering.
\<close>

theorem signature_rendering:
  assumes "list_all supported_tree params"
  shows "identifier_of
           (getExportedName
              (ExportNamedDeclaration (Some (FunctionDeclaration (Some name) params)) comments))
           (Some (FunctionDeclaration (Some name) params))
         = Inr (''`'' @ name @ ''('' @ join '', '' (map display params) @ '')`'')"
proof -
  from assms have "list_all (\<lambda>p. supported_shape (unwrap p)) params"
    by (simp add: list_all_iff supported_tree_unwrap)
  then show ?thesis
    by (simp add: identifier_of_def map_renderParamNode_display declaration_id_name_def)
qed

text \<open>Claim C4, the function \<open>f(a, [b, c] = [], ...rest)\<close> of the specification.\<close>

theorem signature_rendering_witness:
  "list_all supported_tree
     [Identifier ''a'',
      AssignmentPattern (ArrayPattern [Identifier ''b'', Identifier ''c'']) ''[]'',
      RestElement (Identifier ''rest'')]
   \<and> identifier_of
       (getExportedName
          (ExportNamedDeclaration (Some (FunctionDeclaration (Some ''f'')
             [Identifier ''a'',
              AssignmentPattern (ArrayPattern [Identifier ''b'', Identifier ''c'']) ''[]'',
              RestElement (Identifier ''rest'')])) None))
       (Some (FunctionDeclaration (Some ''f'')
          [Identifier ''a'',
           AssignmentPattern (ArrayPattern [Identifier ''b'', Identifier ''c'']) ''[]'',
           RestElement (Identifier ''rest'')]))
     = Inr ''`f(a, [], ...rest)`''"
  using signature_rendering
    [of "[Identifier ''a'',
          AssignmentPattern (ArrayPattern [Identifier ''b'', Identifier ''c'']) ''[]'',
          RestElement (Identifier ''rest'')]" "''f''" None]
  by simp

text \<open>
  Claim C5: of the seven shapes of a parameter, rendering raises an error if and only if
  the parameter is a member expression or a parameter property: for these two it always
  fails, and for a parameter of the five supported shapes, as the parser builds it, it
  never raises.
\<close>

theorem renderParamNode_raises:
  assumes "p = MemberExpression \<or> p = TSParameterProperty \<or> supported_tree p"
  shows "isl (renderParamNode p) \<longleftrightarrow> p = MemberExpression \<or> p = TSParameterProperty"
proof (cases "supported_tree p")
  case True
  then have "renderParamNode p = Inr (display p)"
    by (simp add: renderParamNode_display supported_tree_unwrap)
  with True show ?thesis by auto
next
  case False
  with assms show ?thesis by auto
qed

text \<open>
  Claim C5, three instances: a member expression and a parameter property raise, the rest
  parameter \<open>...rest\<close> does not.
\<close>

theorem renderParamNode_raises_witness:
  "isl (renderParamNode MemberExpression)
   \<and> isl (renderParamNode TSParameterProperty)
   \<and> supported_tree (RestElement (Identifier ''rest''))
   \<and> \<not> isl (renderParamNode (RestElement (Identifier ''rest'')))"
  using renderParamNode_raises [of MemberExpression] renderParamNode_raises [of TSParameterProperty]
    renderParamNode_raises [of "RestElement (Identifier ''rest'')"]
  by simp

section \<open>Sorting: properties\<close>

lemma sortByCategory_total: "sortByCategory a b \<le> 0 \<or> sortByCategory b a \<le> 0"
  by (auto simp: sortByCategory_def)

lemma sortByCategory_trans:
  "sortByCategory a b \<le> 0 \<Longrightarrow> sortByCategory b c \<le> 0 \<Longrightarrow> sortByCategory a c \<le> 0"
  by (auto simp: sortByCategory_def split: if_splits)

lemma set_insert_sorted: "set (insert_sorted cmp x ys) = insert x (set ys)"
  by (induction ys) auto

lemma mset_insert_sorted: "mset (insert_sorted cmp x ys) = add_mset x (mset ys)"
  by (induction ys) auto

lemma sorted_insert_sorted:
  "sorted_wrt (\<lambda>a b. sortByCategory a b \<le> 0) ys
   \<Longrightarrow> sorted_wrt (\<lambda>a b. sortByCategory a b \<le> 0) (insert_sorted sortByCategory x ys)"
proof (induction ys)
  case Nil
  then show ?case by simp
next
  case (Cons y ys)
  show ?case
  proof (cases "sortByCategory x y \<le> 0")
    case True
    with Cons.prems show ?thesis
      by (auto intro: sortByCategory_trans)
  next
    case False
    then have "sortByCategory y x \<le> 0"
      using sortByCategory_total [of x y] by simp
    with False Cons show ?thesis
      by (auto simp: set_insert_sorted)
  qed
qed

lemma sorted_sorted_rows: "sorted_wrt (\<lambda>a b. sortByCategory a b \<le> 0) (sorted_rows entries)"
  unfolding sorted_rows_def array_sort_def
  by (induction entries) (simp_all add: sorted_insert_sorted)

text \<open>The rows of a table are the entries of the catalog, each as often as it was added.\<close>

lemma mset_sorted_rows: "mset (sorted_rows entries) = mset entries"
  unfolding sorted_rows_def array_sort_def
  by (induction entries) (simp_all add: mset_insert_sorted)

text \<open>
  The sorted entries are in order: the smaller category first, and within a category the
  smaller identifier first.
\<close>

lemma sorted_rows_in_order:
  assumes "i < length (sorted_rows entries)" and "j < length (sorted_rows entries)"
  shows "(entry_category (sorted_rows entries ! i) < entry_category (sorted_rows entries ! j)
            \<longrightarrow> i < j)
       \<and> (entry_category (sorted_rows entries ! i) = entry_category (sorted_rows entries ! j)
          \<and> entry_identifier (sorted_rows entries ! i) < entry_identifier (sorted_rows entries ! j)
            \<longrightarrow> i < j)"
proof -
  let ?rows = "sorted_rows entries"
  have le: "sortByCategory (?rows ! j) (?rows ! i) \<le> 0" if "j < i"
    using sorted_wrt_nth_less [OF sorted_sorted_rows that assms(1)] .
  show ?thesis
  proof (cases "i < j")
    case True
    then show ?thesis by simp
  next
    case False
    show ?thesis
    proof (cases "i = j")
      case True
      then show ?thesis by simp
    next
      case ne: False
      with False have "j < i" by simp
      from le [OF this] show ?thesis
        by (auto simp: sortByCategory_def split: if_splits)
    qed
  qed
qed

text \<open>
  Claim C3: the text that the merge puts between the markers holds, for each catalog that
  is not empty, the table that the renderer makes of the header and of rows that are the
  entries of the catalog, each as often as it was added, in this order: of two rows the
  one with the smaller category comes first, and of two rows with the same category the
  one with the smaller identifier comes first; both comparisons are the order of the raw
  strings.
\<close>

theorem tables_rows_in_order:
  "\<exists>typeRows functionRows.
     region_text l types functions
       = join [LF, LF] (filter (\<lambda>s. s \<noteq> [])
           [if types = [] then []
            else markdownTable l
                   ([''Category'', ''Type Name'', ''Description''] # map row_of typeRows),
            if functions = [] then []
            else markdownTable l
                   ([''Category'', ''Function'', ''Description''] # map row_of functionRows)])
     \<and> mset typeRows = mset types
     \<and> mset functionRows = mset functions
     \<and> (\<forall>rows \<in> set [typeRows, functionRows]. \<forall>i j.
           i < length rows \<and> j < length rows \<longrightarrow>
             (entry_category (rows ! i) < entry_category (rows ! j) \<longrightarrow> i < j)
           \<and> (entry_category (rows ! i) = entry_category (rows ! j)
              \<and> entry_identifier (rows ! i) < entry_identifier (rows ! j) \<longrightarrow> i < j))"
proof (intro exI conjI)
  show "region_text l types functions
       = join [LF, LF] (filter (\<lambda>s. s \<noteq> [])
           [if types = [] then []
            else markdownTable l
                   ([''Category'', ''Type Name'', ''Description''] # map row_of (sorted_rows types)),
            if functions = [] then []
            else markdownTable l
                   ([''Category'', ''Function'', ''Description''] # map row_of (sorted_rows functions))])"
    by (simp add: region_text_def render_table_def Let_def)
  show "mset (sorted_rows types) = mset types" "mset (sorted_rows functions) = mset functions"
    by (rule mset_sorted_rows)+
  show "\<forall>rows \<in> set [sorted_rows types, sorted_rows functions]. \<forall>i j.
           i < length rows \<and> j < length rows \<longrightarrow>
             (entry_category (rows ! i) < entry_category (rows ! j) \<longrightarrow> i < j)
           \<and> (entry_category (rows ! i) = entry_category (rows ! j)
              \<and> entry_identifier (rows ! i) < entry_identifier (rows ! j) \<longrightarrow> i < j)"
  proof
    fix rows
    assume "rows \<in> set [sorted_rows types, sorted_rows functions]"
    then obtain entries where rows: "rows = sorted_rows entries" by auto
    show "\<forall>i j.
           i < length rows \<and> j < length rows \<longrightarrow>
             (entry_category (rows ! i) < entry_category (rows ! j) \<longrightarrow> i < j)
           \<and> (entry_category (rows ! i) = entry_category (rows ! j)
              \<and> entry_identifier (rows ! i) < entry_identifier (rows ! j) \<longrightarrow> i < j)"
      unfolding rows using sorted_rows_in_order by blast
  qed
qed

text \<open>
  Claim C3, an instance: two types and three functions, added out of order, and the text
  of their tables.
\<close>

theorem tables_rows_in_order_witness:
  "(\<exists>typeRows functionRows.
     region_text (example_libs []) example_types unsorted_functions
       = join [LF, LF] (filter (\<lambda>s. s \<noteq> [])
           [if example_types = [] then []
            else markdownTable (example_libs [])
                   ([''Category'', ''Type Name'', ''Description''] # map row_of typeRows),
            if unsorted_functions = [] then []
            else markdownTable (example_libs [])
                   ([''Category'', ''Function'', ''Description''] # map row_of functionRows)])
     \<and> mset typeRows = mset example_types
     \<and> mset functionRows = mset unsorted_functions
     \<and> (\<forall>rows \<in> set [typeRows, functionRows]. \<forall>i j.
           i < length rows \<and> j < length rows \<longrightarrow>
             (entry_category (rows ! i) < entry_category (rows ! j) \<longrightarrow> i < j)
           \<and> (entry_category (rows ! i) = entry_category (rows ! j)
              \<and> entry_identifier (rows ! i) < entry_identifier (rows ! j) \<longrightarrow> i < j)))
   \<and> region_text (example_libs []) example_types unsorted_functions
     = ''| Category | Type Name | Description |'' @ [LF]
       @ ''| config | Config | A configuration. |'' @ [LF]
       @ ''| types | Options | Options of a run. |'' @ [LF, LF]
       @ ''| Category | Function | Description |'' @ [LF]
       @ ''| io | `read()` | Reads. |'' @ [LF]
       @ ''| math | `add(a, b)` | Adds. |'' @ [LF]
       @ ''| math | `sub(a, b)` | Subtracts. |''
   \<and> entry_category (unsorted_functions ! 2) < entry_category (unsorted_functions ! 1)
   \<and> entry_category (unsorted_functions ! 1) = entry_category (unsorted_functions ! 0)
   \<and> entry_identifier (unsorted_functions ! 1) < entry_identifier (unsorted_functions ! 0)"
proof (intro conjI)
  show "\<exists>typeRows functionRows.
     region_text (example_libs []) example_types unsorted_functions
       = join [LF, LF] (filter (\<lambda>s. s \<noteq> [])
           [if example_types = [] then []
            else markdownTable (example_libs [])
                   ([''Category'', ''Type Name'', ''Description''] # map row_of typeRows),
            if unsorted_functions = [] then []
            else markdownTable (example_libs [])
                   ([''Category'', ''Function'', ''Description''] # map row_of functionRows)])
     \<and> mset typeRows = mset example_types
     \<and> mset functionRows = mset unsorted_functions
     \<and> (\<forall>rows \<in> set [typeRows, functionRows]. \<forall>i j.
           i < length rows \<and> j < length rows \<longrightarrow>
             (entry_category (rows ! i) < entry_category (rows ! j) \<longrightarrow> i < j)
           \<and> (entry_category (rows ! i) = entry_category (rows ! j)
              \<and> entry_identifier (rows ! i) < entry_identifier (rows ! j) \<longrightarrow> i < j))"
    by (rule tables_rows_in_order)
  show "region_text (example_libs []) example_types unsorted_functions
     = ''| Category | Type Name | Description |'' @ [LF]
       @ ''| config | Config | A configuration. |'' @ [LF]
       @ ''| types | Options | Options of a run. |'' @ [LF, LF]
       @ ''| Category | Function | Description |'' @ [LF]
       @ ''| io | `read()` | Reads. |'' @ [LF]
       @ ''| math | `add(a, b)` | Adds. |'' @ [LF]
       @ ''| math | `sub(a, b)` | Subtracts. |''"
    by code_simp
qed (simp_all add: unsorted_functions_def entry_category_def entry_identifier_def)

section \<open>The catalog: properties\<close>

lemma findLastBlockComment_rev_None:
  "list_all (\<lambda>c. \<not> is_block c) cs \<Longrightarrow> findLastBlockComment_rev cs = None"
  by (induction cs rule: findLastBlockComment_rev.induct) auto

lemma findLastBlockComment_None:
  "no_block_comment comments \<Longrightarrow> findLastBlockComment comments = None"
  by (auto simp: no_block_comment_def findLastBlockComment_def findLastBlockComment_rev_None
      list_all_iff split: option.splits)

lemma findLastBlockComment_rev_append:
  "list_all (\<lambda>c. \<not> is_block c) cs \<Longrightarrow> findLastBlockComment_rev (cs @ ds) = findLastBlockComment_rev ds"
  by (induction cs rule: findLastBlockComment_rev.induct) auto

lemma findLastBlockComment_Some:
  "list_all (\<lambda>c. \<not> is_block c) after
   \<Longrightarrow> findLastBlockComment (Some (before @ CommentBlock v # after)) = Some (CommentBlock v)"
  by (simp add: findLastBlockComment_def findLastBlockComment_rev_append list_all_iff)

lemma documented_kind_name:
  "documented_kind d \<longleftrightarrow> getExportedName (ExportNamedDeclaration d comments) \<noteq> []"
  by (induction d rule: documented_kind.induct) (simp_all add: declaration_id_name_def)

text \<open>
  Claim C7, amended: for every named export of a function, an interface or a type alias
  that has a name and whose display identifier renders, if the leading comments hold no
  block comment then the statement adds no entry to either catalog, writes exactly one
  warning line with the path of the source file and the display identifier (for a function
  its signature), and the run goes on; if they hold a block comment, the last one gives
  one entry, whose description is the brief of its summary, empty or not. A named export
  of any other kind, or without a name, adds no entry and writes no warning, whatever its
  leading comments are.
\<close>

theorem export_without_block_comment:
  "(\<not> documented_kind declaration \<longrightarrow>
      processNode l file cat (ExportNamedDeclaration declaration comments) c w = (Inr c, w))
   \<and> (documented_kind declaration
      \<and> identifier_of (getExportedName (ExportNamedDeclaration declaration comments)) declaration
          = Inr ident \<longrightarrow>
        (no_block_comment comments \<longrightarrow>
           processNode l file cat (ExportNamedDeclaration declaration comments) c w
           = (Inr c, w\<lparr>warnings := warnings w
                @ [''WARN '' @ file @ '': '' @ ident @ '' is exported but undocumented'']\<rparr>))
      \<and> (\<forall>before v after.
            comments = Some (before @ CommentBlock v # after)
            \<and> list_all (\<lambda>c. \<not> is_block c) after \<longrightarrow>
            processNode l file cat (ExportNamedDeclaration declaration comments) c w
            = (Inr (if isFunctionDeclaration declaration
                    then c\<lparr>exportedFunctions := exportedFunctions c @
                           [(cat, ident, extractBrief (renderDocNode (parseString l (''/*'' @ v @ ''*/''))))]\<rparr>
                    else c\<lparr>exportedTypes := exportedTypes c @
                           [(cat, ident, extractBrief (renderDocNode (parseString l (''/*'' @ v @ ''*/''))))]\<rparr>), w)))"
  using documented_kind_name [of "declaration" comments]
  by (auto simp: processNode_def console_warn_def Let_def findLastBlockComment_None
      findLastBlockComment_Some comment_value_def)

text \<open>
  Claim C7, three instances of the theorem: \<open>export function add(a, b)\<close> after a line
  comment gives the warning and no entry; \<open>export interface Options\<close> after the block
  comment \<open>/***/\<close>, whose brief is empty, gives an entry with an empty description; an
  exported constant after a line comment gives nothing.
\<close>

theorem export_without_block_comment_witness:
  "documented_kind (Some (FunctionDeclaration (Some ''add'') [Identifier ''a'', Identifier ''b'']))
   \<and> identifier_of
       (getExportedName (ExportNamedDeclaration
          (Some (FunctionDeclaration (Some ''add'') [Identifier ''a'', Identifier ''b'']))
          (Some [CommentLine '' eslint-disable-next-line''])))
       (Some (FunctionDeclaration (Some ''add'') [Identifier ''a'', Identifier ''b'']))
       = Inr ''`add(a, b)`''
   \<and> no_block_comment (Some [CommentLine '' eslint-disable-next-line''])
   \<and> processNode (example_libs []) ''src/math.ts'' ''math''
       (ExportNamedDeclaration
          (Some (FunctionDeclaration (Some ''add'') [Identifier ''a'', Identifier ''b'']))
          (Some [CommentLine '' eslint-disable-next-line'']))
       \<lparr>exportedFunctions = [], exportedTypes = []\<rparr> (empty_world [])
     = (Inr \<lparr>exportedFunctions = [], exportedTypes = []\<rparr>,
        \<lparr>fs = map_of [], reads = [], writes = [],
         warnings = [''WARN src/math.ts: `add(a, b)` is exported but undocumented'']\<rparr>)
   \<and> documented_kind (Some (TSInterfaceDeclaration (Some ''Options'')))
   \<and> identifier_of
       (getExportedName (ExportNamedDeclaration (Some (TSInterfaceDeclaration (Some ''Options'')))
          (Some [CommentBlock ''*'', CommentLine '' note''])))
       (Some (TSInterfaceDeclaration (Some ''Options''))) = Inr ''Options''
   \<and> list_all (\<lambda>c. \<not> is_block c) [CommentLine '' note'']
   \<and> processNode (example_libs []) ''src/types.ts'' ''types''
       (ExportNamedDeclaration (Some (TSInterfaceDeclaration (Some ''Options'')))
          (Some [CommentBlock ''*'', CommentLine '' note'']))
       \<lparr>exportedFunctions = [], exportedTypes = []\<rparr> (empty_world [])
     = (Inr \<lparr>exportedFunctions = [], exportedTypes = [(''types'', ''Options'', [])]\<rparr>,
        empty_world [])
   \<and> \<not> documented_kind (Some OtherDeclaration)
   \<and> processNode (example_libs []) ''src/math.ts'' ''math''
       (ExportNamedDeclaration (Some OtherDeclaration) (Some [CommentLine '' the answer'']))
       \<lparr>exportedFunctions = [], exportedTypes = []\<rparr> (empty_world [])
     = (Inr \<lparr>exportedFunctions = [], exportedTypes = []\<rparr>, empty_world [])"
proof -
  let ?l = "example_libs []"
  let ?f = "Some (FunctionDeclaration (Some ''add'') [Identifier ''a'', Identifier ''b''])"
  let ?fc = "Some [CommentLine '' eslint-disable-next-line'']"
  let ?t = "Some (TSInterfaceDeclaration (Some ''Options''))"
  let ?tc = "Some [CommentBlock ''*'', CommentLine '' note'']"
  let ?o = "Some OtherDeclaration"
  let ?oc = "Some [CommentLine '' the answer'']"
  let ?c0 = "\<lparr>exportedFunctions = [], exportedTypes = []\<rparr>"
  have f1: "documented_kind ?f" by simp
  have f3: "identifier_of (getExportedName (ExportNamedDeclaration ?f ?fc)) ?f = Inr ''`add(a, b)`''"
    by (simp add: identifier_of_def declaration_id_name_def)
  have f4: "no_block_comment ?fc" by (simp add: no_block_comment_def)
  have t1: "documented_kind ?t" by simp
  have t3: "identifier_of (getExportedName (ExportNamedDeclaration ?t ?tc)) ?t = Inr ''Options''"
    by (simp add: identifier_of_def declaration_id_name_def)
  have t4: "?tc = Some ([] @ CommentBlock ''*'' # [CommentLine '' note''])
            \<and> list_all (\<lambda>c. \<not> is_block c) [CommentLine '' note'']"
    by simp
  have o1: "\<not> documented_kind ?o" by simp
  from export_without_block_comment
    [of ?f ?l "''src/math.ts''" "''math''" ?fc ?c0 "empty_world []" "''`add(a, b)`''"]
    f1 f3 f4
  have r1: "processNode ?l ''src/math.ts'' ''math'' (ExportNamedDeclaration ?f ?fc) ?c0 (empty_world [])
     = (Inr ?c0, \<lparr>fs = map_of [], reads = [], writes = [],
         warnings = [''WARN src/math.ts: `add(a, b)` is exported but undocumented'']\<rparr>)"
    by (simp add: empty_world_def)
  from export_without_block_comment
    [of ?t ?l "''src/types.ts''" "''types''" ?tc ?c0 "empty_world []" "''Options''"]
    t1 t3 t4
  have "processNode ?l ''src/types.ts'' ''types'' (ExportNamedDeclaration ?t ?tc) ?c0 (empty_world [])
     = (Inr (if isFunctionDeclaration ?t
               then ?c0\<lparr>exportedFunctions := exportedFunctions ?c0 @
                           [(''types'', ''Options'', extractBrief (renderDocNode (parseString ?l (''/*'' @ ''*'' @ ''*/''))))]\<rparr>
                    else ?c0\<lparr>exportedTypes := exportedTypes ?c0 @
                           [(''types'', ''Options'', extractBrief (renderDocNode (parseString ?l (''/*'' @ ''*'' @ ''*/''))))]\<rparr>), empty_world [])"
    by blast
  then have r2: "processNode ?l ''src/types.ts'' ''types'' (ExportNamedDeclaration ?t ?tc) ?c0 (empty_world [])
     = (Inr \<lparr>exportedFunctions = [], exportedTypes = [(''types'', ''Options'', [])]\<rparr>, empty_world [])"
    by (simp add: isFunctionDeclaration_def example_libs_def brief_defs)
  from export_without_block_comment
    [of ?o ?l "''src/math.ts''" "''math''" ?oc ?c0 "empty_world []"] o1
  have r3: "processNode ?l ''src/math.ts'' ''math'' (ExportNamedDeclaration ?o ?oc) ?c0 (empty_world [])
     = (Inr ?c0, empty_world [])"
    by blast
  from f1 f3 f4 r1 t1 t3 t4 r2 o1 r3 show ?thesis by blast
qed

text \<open>
  Claim C7, as stated: every exported declaration without a block comment gives exactly one
  warning. It fails for \<open>export const x = 1\<close>: a declaration that is not a function, an
  interface or a type alias has no exported name, and the statement is skipped without a
  warning.
\<close>

theorem export_const_no_warning:
  "no_block_comment None
   \<and> processNode (example_libs []) ''src/math.ts'' ''math''
       (ExportNamedDeclaration (Some OtherDeclaration) None)
       \<lparr>exportedFunctions = [], exportedTypes = []\<rparr> (empty_world [])
     = (Inr \<lparr>exportedFunctions = [], exportedTypes = []\<rparr>, empty_world [])
   \<and> warnings (empty_world []) = []"
  by (simp add: no_block_comment_def processNode_def empty_world_def)

section \<open>Fatal errors: properties\<close>

text \<open>Building the catalog reads the source files and writes warnings, nothing else.\<close>

lemma processNode_frame:
  "fs (snd (processNode l file cat node c w)) = fs w
   \<and> reads (snd (processNode l file cat node c w)) = reads w
   \<and> writes (snd (processNode l file cat node c w)) = writes w"
  by (auto simp: processNode_def console_warn_def Let_def split: Node.splits sum.splits option.splits)

lemma processNodes_frame:
  "fs (snd (processNodes l file cat nodes c w)) = fs w
   \<and> reads (snd (processNodes l file cat nodes c w)) = reads w
   \<and> writes (snd (processNodes l file cat nodes c w)) = writes w"
proof (induction nodes arbitrary: c w)
  case Nil
  then show ?case by simp
next
  case (Cons node nodes)
  obtain r w' where step: "processNode l file cat node c w = (r, w')"
    by (cases "processNode l file cat node c w")
  with processNode_frame [of l "file" cat node c w]
  have frame: "fs w' = fs w" "reads w' = reads w" "writes w' = writes w" by simp_all
  show ?case
  proof (cases r)
    case (Inl e)
    with step frame show ?thesis by simp
  next
    case (Inr c')
    with step frame Cons.IH [of c' w'] show ?thesis by simp
  qed
qed

lemma processFile_frame:
  "fs (snd (processFile l file c w)) = fs w
   \<and> reads (snd (processFile l file c w)) = reads w @ [file]
   \<and> writes (snd (processFile l file c w)) = writes w"
  by (auto simp: processFile_def readFileSync_def Let_def processNodes_frame split: option.splits sum.splits)

lemma processFiles_frame:
  "fs (snd (processFiles l files c w)) = fs w
   \<and> (\<exists>k. reads (snd (processFiles l files c w)) = reads w @ take k files)
   \<and> writes (snd (processFiles l files c w)) = writes w"
proof (induction files arbitrary: c w)
  case Nil
  then show ?case by simp
next
  case (Cons src files)
  obtain r w' where step: "processFile l src c w = (r, w')"
    by (cases "processFile l src c w")
  with processFile_frame [of l src c w]
  have frame: "fs w' = fs w" "reads w' = reads w @ [src]" "writes w' = writes w" by simp_all
  show ?case
  proof (cases r)
    case (Inl e)
    have "reads w @ [src] = reads w @ take 1 (src # files)" by simp
    with Inl step frame show ?thesis by (auto simp del: take_Suc_Cons)
  next
    case (Inr c')
    from Cons.IH [of c' w'] obtain k where
      k: "reads (snd (processFiles l files c' w')) = reads w' @ take k files"
      and rest: "fs (snd (processFiles l files c' w')) = fs w'"
        "writes (snd (processFiles l files c' w')) = writes w'"
      by blast
    have "reads w' @ take k files = reads w @ take (Suc k) (src # files)"
      using frame by simp
    with Inr step frame k rest show ?thesis by (auto simp del: take_Suc_Cons)
  qed
qed

text \<open>A statement or a file at which the run stops makes the catalog construction fail.\<close>

lemma processNode_fatal:
  "node_fatal node \<Longrightarrow> isl (fst (processNode l file cat node c w))"
  by (auto simp: node_fatal_def processNode_def Let_def isl_def split: Node.splits)

lemma processNodes_fatal:
  "list_ex node_fatal nodes \<Longrightarrow> isl (fst (processNodes l file cat nodes c w))"
proof (induction nodes arbitrary: c w)
  case Nil
  then show ?case by simp
next
  case (Cons node nodes)
  obtain r w' where step: "processNode l file cat node c w = (r, w')"
    by (cases "processNode l file cat node c w")
  show ?case
  proof (cases r)
    case (Inl e)
    with step show ?thesis by simp
  next
    case (Inr c')
    with step processNode_fatal [of node l "file" cat c w] have "\<not> node_fatal node" by auto
    with Cons.prems have "list_ex node_fatal nodes" by simp
    from Cons.IH [OF this, of c' w'] Inr step show ?thesis by simp
  qed
qed

lemma file_fatal_fs: "fs w' = fs w \<Longrightarrow> file_fatal l w' file = file_fatal l w file"
  by (simp add: file_fatal_def)

lemma processFile_fatal:
  "file_fatal l w file \<Longrightarrow> isl (fst (processFile l file c w))"
  by (auto simp: file_fatal_def processFile_def readFileSync_def Let_def processNodes_fatal
      split: option.splits sum.splits)

lemma processFiles_fatal:
  "list_ex (file_fatal l w) files \<Longrightarrow> isl (fst (processFiles l files c w))"
proof (induction files arbitrary: c w)
  case Nil
  then show ?case by simp
next
  case (Cons src files)
  obtain r w' where step: "processFile l src c w = (r, w')"
    by (cases "processFile l src c w")
  with processFile_frame [of l src c w] have fs: "fs w' = fs w" by simp
  show ?case
  proof (cases r)
    case (Inl e)
    with step show ?thesis by simp
  next
    case (Inr c')
    with step processFile_fatal [of l w src c] have "\<not> file_fatal l w src" by auto
    with Cons.prems have "list_ex (file_fatal l w) files" by simp
    then have "list_ex (file_fatal l w') files"
      by (simp add: list_ex_iff file_fatal_fs [OF fs])
    from Cons.IH [OF this, of c'] Inr step show ?thesis by simp
  qed
qed

text \<open>
  Claim C8: if a source file does not parse or the signature of an exported function does
  not render, the run ends with an error, no file has changed, nothing was written, and
  the files read are source files only: the readme is neither read nor written.
\<close>

theorem fatal_error_aborts:
  assumes "list_ex (file_fatal l w) sourceFiles"
  shows "isl (fst (updateApiReadme l sourceFiles w))
       \<and> fs (snd (updateApiReadme l sourceFiles w)) = fs w
       \<and> writes (snd (updateApiReadme l sourceFiles w)) = writes w
       \<and> (\<exists>k. reads (snd (updateApiReadme l sourceFiles w)) = reads w @ take k sourceFiles)"
proof -
  let ?c0 = "\<lparr>exportedFunctions = [], exportedTypes = []\<rparr>"
  obtain r w' where run: "processFiles l sourceFiles ?c0 w = (r, w')"
    by (cases "processFiles l sourceFiles ?c0 w")
  with processFiles_fatal [OF assms, of ?c0] obtain e where r: "r = Inl e"
    by (cases r) auto
  from run r have "updateApiReadme l sourceFiles w = (Inl e, w')"
    by (simp add: updateApiReadme_def)
  with processFiles_frame [of l sourceFiles ?c0 w] run show ?thesis
    by simp
qed

text \<open>
  Claim C8, an instance: the second source file does not parse; the run fails and nothing
  is written.
\<close>

theorem fatal_error_aborts_witness:
  "list_ex (file_fatal (example_libs example_sources) (empty_world example_files)) [''src/ok.ts'', ''src/bad.ts'']
 \<and> isl (fst (updateApiReadme (example_libs example_sources) [''src/ok.ts'', ''src/bad.ts''] (empty_world example_files)))
 \<and> writes (snd (updateApiReadme (example_libs example_sources) [''src/ok.ts'', ''src/bad.ts''] (empty_world example_files))) = []"
proof -
  have h: "list_ex (file_fatal (example_libs example_sources) (empty_world example_files)) [''src/ok.ts'', ''src/bad.ts'']"
    by (simp add: file_fatal_def example_libs_def empty_world_def example_files_def example_sources_def)
  from fatal_error_aborts [OF h] h show ?thesis
    by (simp add: empty_world_def)
qed

text \<open>A write happens only when the catalog was built from all source files without error.\<close>

lemma write_only_after_catalog:
  assumes "writes (snd (updateApiReadme l sourceFiles w)) \<noteq> writes w"
  shows "\<not> isl (fst (processFiles l sourceFiles \<lparr>exportedFunctions = [], exportedTypes = []\<rparr> w))"
proof
  let ?c0 = "\<lparr>exportedFunctions = [], exportedTypes = []\<rparr>"
  assume "isl (fst (processFiles l sourceFiles ?c0 w))"
  then obtain e w' where run: "processFiles l sourceFiles ?c0 w = (Inl e, w')"
    by (cases "processFiles l sourceFiles ?c0 w") (auto simp: isl_def)
  then have "updateApiReadme l sourceFiles w = (Inl e, w')"
    by (simp add: updateApiReadme_def)
  with processFiles_frame [of l sourceFiles ?c0 w] run assms show False
    by simp
qed

section \<open>The pattern: properties\<close>

lemma occurs_at_append: "occurs_at pat (before @ pat @ after) (length before)"
  by (simp add: occurs_at_def)

lemma occurs_at_bound:
  assumes "occurs_at pat s i" and "pat \<noteq> []"
  shows "i + length pat \<le> length s"
proof -
  from assms(1) have "length (take (length pat) (drop i s)) = length pat"
    by (simp only: occurs_at_def)
  then have "length pat \<le> length s - i" by simp
  moreover from assms(2) have "0 < length pat" by simp
  ultimately show ?thesis by linarith
qed

lemma TOKEN_START_nonempty: "TOKEN_START \<noteq> []"
  by (simp add: TOKEN_START_def)

lemma TOKEN_END_nonempty: "TOKEN_END \<noteq> []"
  by (simp add: TOKEN_END_def)

lemma mem_occurrences:
  "i \<in> set (occurrences pat s) \<longleftrightarrow> i \<le> length s \<and> occurs_at pat s i"
  by (auto simp: occurrences_def simp del: upt_Suc)

lemma occurs_in_occurrences:
  "occurs_at pat s i \<Longrightarrow> pat \<noteq> [] \<Longrightarrow> i \<in> set (occurrences pat s)"
  using occurs_at_bound [of pat s i] by (simp add: mem_occurrences)

lemma find_first:
  "(\<forall>y \<in> set ys. \<not> P y) \<Longrightarrow> P a \<Longrightarrow> List.find P (ys @ a # zs) = Some a"
  by (induction ys) auto

lemma find_SomeD: "List.find P xs = Some x \<Longrightarrow> P x \<and> x \<in> set xs"
  by (induction xs) (auto split: if_splits)

lemma upt_split: "a \<le> b \<Longrightarrow> b < c \<Longrightarrow> [a ..< c] = [a ..< b] @ b # [Suc b ..< c]"
proof -
  assume "a \<le> b" and "b < c"
  then have "[a ..< c] = [a ..< b] @ [b ..< c]"
    using upt_add_eq_append [of a b "c - b"] by simp
  with \<open>b < c\<close> show ?thesis by (simp add: upt_conv_Cons)
qed

lemma match_at_Some:
  assumes "match_at s i = Some j"
  shows "occurs_at TOKEN_START s i \<and> occurs_at TOKEN_END s j \<and> i + length TOKEN_START + 1 \<le> j"
proof -
  from assms have start: "occurs_at TOKEN_START s i"
    and found: "List.find (occurs_at TOKEN_END s) (rev [i + length TOKEN_START + 1 ..< Suc (length s)]) = Some j"
    by (simp_all add: match_at_def split: if_splits)
  from find_SomeD [OF found] have "occurs_at TOKEN_END s j"
    and "j \<in> set (rev [i + length TOKEN_START + 1 ..< Suc (length s)])"
    by simp_all
  with start show ?thesis by (simp del: upt_Suc)
qed

lemma exec_from_Some:
  "exec_from s positions = Some (i, j) \<Longrightarrow> match_at s i = Some j"
  by (induction positions) (auto split: option.splits)

lemma exec_from_skip:
  "(\<forall>i \<in> set skipped. match_at s i = None) \<Longrightarrow> exec_from s (skipped @ positions) = exec_from s positions"
  by (induction skipped) auto

lemma regexp_exec_Some:
  assumes "regexp_exec s = Some (i, j)"
  shows "occurs_at TOKEN_START s i \<and> occurs_at TOKEN_END s j \<and> i + length TOKEN_START + 1 \<le> j"
  using assms exec_from_Some match_at_Some unfolding regexp_exec_def by blast

text \<open>A text without a start marker followed by an end marker has no match.\<close>

lemma no_marker_pair_no_match:
  assumes "\<not> has_marker_pair s"
  shows "regexp_exec s = None"
proof (cases "regexp_exec s")
  case None
  then show ?thesis .
next
  case (Some m)
  obtain i j where m: "m = (i, j)" by (cases m)
  from regexp_exec_Some [of s i j] Some m
  have occ: "occurs_at TOKEN_START s i" "occurs_at TOKEN_END s j" and le: "i + length TOKEN_START + 1 \<le> j"
    by simp_all
  from occ have "i \<in> set (occurrences TOKEN_START s)" "j \<in> set (occurrences TOKEN_END s)"
    by (simp_all add: occurs_in_occurrences TOKEN_START_nonempty TOKEN_END_nonempty)
  with le have "has_marker_pair s"
    unfolding has_marker_pair_def list_ex_iff by (meson add_leD1)
  with assms show ?thesis by simp
qed

lemma updateReadme_no_match:
  assumes "fs w README = Some readme" and "regexp_exec readme = None"
  shows "updateReadme l types functions w = (Inr (), w\<lparr>reads := reads w @ [README]\<rparr>)"
  using assms by (simp add: updateReadme_def readFileSync_def replace_region_def Let_def)

text \<open>
  Claim C6: when the readme holds no start marker with an end marker after it, the merge
  ends without an error and the world is as before but for the read of the readme: the
  files are unchanged, nothing is written, no warning is given, whatever the catalogs hold.
\<close>

theorem no_markers_no_write:
  assumes "fs w README = Some readme" and "\<not> has_marker_pair readme"
  shows "updateReadme l types functions w = (Inr (), w\<lparr>reads := reads w @ [README]\<rparr>)"
  using assms(1) no_marker_pair_no_match [OF assms(2)] by (rule updateReadme_no_match)

text \<open>Claim C6, an instance: a readme with the end marker before the start marker.\<close>

theorem no_markers_no_write_witness:
  "fs (empty_world [(README, ''# API'' @ [LF] @ TOKEN_END @ ''old'' @ TOKEN_START)]) README
     = Some (''# API'' @ [LF] @ TOKEN_END @ ''old'' @ TOKEN_START)
   \<and> \<not> has_marker_pair (''# API'' @ [LF] @ TOKEN_END @ ''old'' @ TOKEN_START)
   \<and> updateReadme (example_libs []) [] example_functions
        (empty_world [(README, ''# API'' @ [LF] @ TOKEN_END @ ''old'' @ TOKEN_START)])
     = (Inr (), (empty_world [(README, ''# API'' @ [LF] @ TOKEN_END @ ''old'' @ TOKEN_START)])
                  \<lparr>reads := [README]\<rparr>)"
proof -
  let ?readme = "''# API'' @ [LF] @ TOKEN_END @ ''old'' @ TOKEN_START"
  have content: "fs (empty_world [(README, ?readme)]) README = Some ?readme"
    by (simp add: empty_world_def)
  have none: "\<not> has_marker_pair ?readme"
    by code_simp
  from no_markers_no_write [OF content none, of "example_libs []" "[]" example_functions]
    content none
  show ?thesis by (simp add: empty_world_def)
qed

text \<open>
  The match on a text with a region: when no start marker stands before the one at
  \<open>before\<close> and no end marker after the one that closes \<open>region\<close>, the match is that start
  marker, the region and that end marker.
\<close>

lemma regexp_exec_region:
  assumes s: "s = before @ TOKEN_START @ region @ TOKEN_END @ after"
    and region: "region \<noteq> []"
    and first: "\<forall>i < length before. \<not> occurs_at TOKEN_START s i"
    and last: "\<forall>j > length before + length TOKEN_START + length region. \<not> occurs_at TOKEN_END s j"
  shows "regexp_exec s = Some (length before, length before + length TOKEN_START + length region)"
proof -
  let ?b = "length before"
  let ?j = "?b + length TOKEN_START + length region"
  let ?lo = "?b + length TOKEN_START + 1"
  have start: "occurs_at TOKEN_START s ?b"
    unfolding s by (rule occurs_at_append)
  have "occurs_at TOKEN_END s (length (before @ TOKEN_START @ region))"
    using occurs_at_append [of TOKEN_END "before @ TOKEN_START @ region" after] by (simp add: s)
  then have "end": "occurs_at TOKEN_END s ?j" by (simp add: add.assoc)
  have len: "?j < Suc (length s)" by (simp add: s)
  have lo: "?lo \<le> ?j" using region by (simp add: Suc_le_eq)
  have "[?lo ..< Suc (length s)] = [?lo ..< ?j] @ ?j # [Suc ?j ..< Suc (length s)]"
    using lo len by (rule upt_split)
  then have "rev [?lo ..< Suc (length s)] = rev [Suc ?j ..< Suc (length s)] @ ?j # rev [?lo ..< ?j]"
    by simp
  moreover have "\<forall>y \<in> set (rev [Suc ?j ..< Suc (length s)]). \<not> occurs_at TOKEN_END s y"
    using last by auto
  ultimately have "List.find (occurs_at TOKEN_END s) (rev [?lo ..< Suc (length s)]) = Some ?j"
    using "end" by (simp only: find_first)
  with start have here: "match_at s ?b = Some ?j"
    by (simp add: match_at_def)
  have skipped: "\<forall>i \<in> set [0 ..< ?b]. match_at s i = None"
    using first by (simp add: match_at_def)
  have "?b < Suc (length s)" by (simp add: s)
  then have "[0 ..< Suc (length s)] = [0 ..< ?b] @ ?b # [Suc ?b ..< Suc (length s)]"
    by (intro upt_split) simp_all
  then have "regexp_exec s = exec_from s (?b # [Suc ?b ..< Suc (length s)])"
    unfolding regexp_exec_def using exec_from_skip [OF skipped] by simp
  with here show ?thesis by simp
qed

lemma replace_region_region:
  assumes s: "s = before @ TOKEN_START @ region @ TOKEN_END @ after"
    and region: "region \<noteq> []"
    and first: "\<forall>i < length before. \<not> occurs_at TOKEN_START s i"
    and last: "\<forall>j > length before + length TOKEN_START + length region. \<not> occurs_at TOKEN_END s j"
  shows "replace_region s replacement
         = before @ getSubstitution (TOKEN_START @ region @ TOKEN_END) s (length before) [region] replacement @ after"
proof -
  have "regexp_exec s = Some (length before, length before + length TOKEN_START + length region)"
    using assms by (rule regexp_exec_region)
  then show ?thesis
    by (simp add: replace_region_def Let_def s)
qed

section \<open>The replacement: properties\<close>

text \<open>
  Text without a dollar sign is copied as it is, and so are the markers and the blank lines
  around the tables: only the text of the tables is open to substitution.
\<close>

lemma getSubstitution_Cons_plain:
  "c \<noteq> CHR ''$'' \<Longrightarrow> getSubstitution m s p caps (c # t) = c # getSubstitution m s p caps t"
  by (cases t) simp_all

lemma getSubstitution_plain:
  "CHR ''$'' \<notin> set x \<Longrightarrow> getSubstitution m s p caps (x @ t) = x @ getSubstitution m s p caps t"
proof (induction x)
  case Nil
  then show ?case by simp
next
  case (Cons c x)
  then have "c \<noteq> CHR ''$''" and "CHR ''$'' \<notin> set x" by auto
  with Cons.IH show ?case
    using getSubstitution_Cons_plain [of c m s p caps "x @ t"] by simp
qed

lemma getSubstitution_plain_all:
  "CHR ''$'' \<notin> set x \<Longrightarrow> getSubstitution m s p caps x = x"
  using getSubstitution_plain [of x m s p caps "[]"] by simp

lemma LF_plain:
  "LF \<noteq> CHR ''$''" "LF \<noteq> CHR 0x60" "LF \<noteq> CHR ''&''" "LF \<noteq> CHR 0x27" "\<not> is_digit LF"
  "CHR ''$'' \<noteq> LF"
  by (simp_all add: LF_def is_digit_def)

lemma getSubstitution_LF_plain:
  "CHR ''$'' \<notin> set x \<Longrightarrow> getSubstitution m s p caps (LF # x) = LF # x"
  using getSubstitution_plain_all [of "LF # x" m s p caps] by (simp add: LF_plain)

lemma getSubstitution_before_LF:
  "CHR ''$'' \<notin> set x \<Longrightarrow>
   getSubstitution m s p caps (b @ LF # x) = getSubstitution m s p caps b @ LF # x"
proof (induction m s p caps b rule: getSubstitution.induct)
  case (1 m s p caps)
  then show ?case
    by (simp add: getSubstitution_LF_plain)
next
  case (2 m s p caps c)
  then show ?case
    by (simp add: getSubstitution_LF_plain LF_plain)
next
  case (3 m s p caps c d t)
  show ?case
  proof (cases t)
    case Nil
    with 3 show ?thesis
      by (simp add: getSubstitution_LF_plain LF_plain)
  next
    case (Cons e t')
    with 3 show ?thesis by simp
  qed
qed

lemma TOKEN_START_plain: "CHR ''$'' \<notin> set TOKEN_START"
  by (simp add: TOKEN_START_def)

lemma TOKEN_END_plain: "CHR ''$'' \<notin> set TOKEN_END"
  by (simp add: TOKEN_END_def)

lemma getSubstitution_replacement:
  "getSubstitution m s p caps (replacement_of l types functions)
   = TOKEN_START @ [LF, LF] @ getSubstitution m s p caps (region_text l types functions)
     @ [LF, LF] @ TOKEN_END"
proof -
  have "CHR ''$'' \<notin> set (TOKEN_START @ [LF, LF])" "CHR ''$'' \<notin> set (LF # TOKEN_END)"
    using TOKEN_START_plain TOKEN_END_plain by (simp_all add: LF_plain)
  then show ?thesis
    using getSubstitution_plain [of "TOKEN_START @ [LF, LF]" m s p caps]
      getSubstitution_before_LF [of "LF # TOKEN_END" m s p caps]
    by (simp add: replacement_of_def)
qed

section \<open>The merge: properties\<close>

lemma occurrences_unique:
  assumes one: "length (occurrences pat s) = 1"
    and a: "occurs_at pat s a" and b: "occurs_at pat s b" and pat: "pat \<noteq> []"
  shows "a = b"
proof -
  from one obtain x where "occurrences pat s = [x]"
    by (cases "occurrences pat s") simp_all
  moreover from a b pat have "a \<in> set (occurrences pat s)" "b \<in> set (occurrences pat s)"
    by (simp_all add: occurs_in_occurrences)
  ultimately show ?thesis by simp
qed

lemma occurs_at_region_end:
  "occurs_at TOKEN_END (before @ TOKEN_START @ region @ TOKEN_END @ after)
     (length before + length TOKEN_START + length region)"
  using occurs_at_append [of TOKEN_END "before @ TOKEN_START @ region" after]
  by (simp add: add.assoc)

text \<open>
  Claim C9: when the readme holds exactly one start marker and exactly one end marker, the
  end marker after the start marker with a non-empty region between them, the merge ends
  without an error and the readme then is the text before the start marker, the start
  marker, a blank line, the new text of the region, a blank line, the end marker and the
  text after the end marker; every other file is unchanged. The new text of the region is
  the text of the tables after the substitution that \<open>replace\<close> applies to it.
\<close>

theorem merge_replaces_region:
  assumes content: "fs w README = Some readme"
    and readme: "readme = before @ TOKEN_START @ region @ TOKEN_END @ after"
    and region: "region \<noteq> []"
    and one_start: "length (occurrences TOKEN_START readme) = 1"
    and one_end: "length (occurrences TOKEN_END readme) = 1"
  shows "fst (updateReadme l types functions w) = Inr ()
       \<and> fs (snd (updateReadme l types functions w))
         = (fs w)(README \<mapsto>
             before @ TOKEN_START @ [LF, LF]
             @ getSubstitution (TOKEN_START @ region @ TOKEN_END) readme (length before) [region]
                 (region_text l types functions)
             @ [LF, LF] @ TOKEN_END @ after)"
proof -
  have "occurs_at TOKEN_START readme (length before)"
    unfolding readme by (rule occurs_at_append)
  then have first: "\<forall>i < length before. \<not> occurs_at TOKEN_START readme i"
    using occurrences_unique [OF one_start _ _ TOKEN_START_nonempty] by blast
  have "occurs_at TOKEN_END readme (length before + length TOKEN_START + length region)"
    unfolding readme by (rule occurs_at_region_end)
  then have last: "\<forall>j > length before + length TOKEN_START + length region.
      \<not> occurs_at TOKEN_END readme j"
    using occurrences_unique [OF one_end _ _ TOKEN_END_nonempty] by blast
  have new: "replace_region readme (replacement_of l types functions)
    = before @ TOKEN_START @ [LF, LF]
      @ getSubstitution (TOKEN_START @ region @ TOKEN_END) readme (length before) [region]
          (region_text l types functions)
      @ [LF, LF] @ TOKEN_END @ after"
    using replace_region_region [OF readme region first last]
    by (simp add: getSubstitution_replacement)
  show ?thesis
  proof (cases "replace_region readme (replacement_of l types functions) = readme")
    case True
    with content have "(fs w)(README \<mapsto> replace_region readme (replacement_of l types functions)) = fs w"
      by (simp add: map_upd_triv)
    with True content show ?thesis
      unfolding new [symmetric]
      by (simp add: updateReadme_def readFileSync_def Let_def)
  next
    case False
    with content show ?thesis
      unfolding new [symmetric]
      by (simp add: updateReadme_def readFileSync_def writeFileSync_def Let_def)
  qed
qed

text \<open>Claim C9, an instance: a readme with a title, the region \<open>old\<close> and a footer.\<close>

theorem merge_replaces_region_witness:
  "fs (empty_world [(README, ''# API'' @ [LF] @ TOKEN_START @ [LF] @ ''old'' @ [LF] @ TOKEN_END @ [LF] @ ''footer'')]) README
     = Some (''# API'' @ [LF] @ TOKEN_START @ ([LF] @ ''old'' @ [LF]) @ TOKEN_END @ [LF] @ ''footer'')
   \<and> [LF] @ ''old'' @ [LF] \<noteq> []
   \<and> length (occurrences TOKEN_START (''# API'' @ [LF] @ TOKEN_START @ [LF] @ ''old'' @ [LF] @ TOKEN_END @ [LF] @ ''footer'')) = 1
   \<and> length (occurrences TOKEN_END (''# API'' @ [LF] @ TOKEN_START @ [LF] @ ''old'' @ [LF] @ TOKEN_END @ [LF] @ ''footer'')) = 1
   \<and> fs (snd (updateReadme (example_libs []) [] example_functions
        (empty_world [(README, ''# API'' @ [LF] @ TOKEN_START @ [LF] @ ''old'' @ [LF] @ TOKEN_END @ [LF] @ ''footer'')]))) README
     = Some (''# API'' @ [LF] @ TOKEN_START @ [LF, LF]
         @ ''| Category | Function | Description |'' @ [LF]
         @ ''| math | `add(a, b)` | Adds two numbers. |''
         @ [LF, LF] @ TOKEN_END @ [LF] @ ''footer'')"
proof -
  let ?before = "''# API'' @ [LF]"
  let ?region = "[LF] @ ''old'' @ [LF]"
  let ?after = "[LF] @ ''footer''"
  let ?readme = "?before @ TOKEN_START @ ?region @ TOKEN_END @ ?after"
  let ?w = "empty_world [(README, ?readme)]"
  have content: "fs ?w README = Some ?readme"
    by (simp add: empty_world_def)
  have region: "?region \<noteq> []" by simp
  have one_start: "length (occurrences TOKEN_START ?readme) = 1"
    by code_simp
  have one_end: "length (occurrences TOKEN_END ?readme) = 1"
    by code_simp
  have rendered: "getSubstitution (TOKEN_START @ ?region @ TOKEN_END) ?readme (length ?before) [?region]
      (region_text (example_libs []) [] example_functions)
    = ''| Category | Function | Description |'' @ [LF] @ ''| math | `add(a, b)` | Adds two numbers. |''"
    by code_simp
  from merge_replaces_region [OF content refl region one_start one_end, of "example_libs []" "[]" example_functions]
  have "fs (snd (updateReadme (example_libs []) [] example_functions ?w)) README
    = Some (?before @ TOKEN_START @ [LF, LF]
         @ ''| Category | Function | Description |'' @ [LF]
         @ ''| math | `add(a, b)` | Adds two numbers. |''
         @ [LF, LF] @ TOKEN_END @ ?after)"
    unfolding rendered by simp
  with content region one_start one_end show ?thesis by simp
qed

text \<open>
  Claim C10, as stated: whenever the start marker is followed at once by the end marker,
  the merge changes nothing. It fails when a second end marker follows: the greedy group
  takes the first end marker and the text up to the last one, and the readme is rewritten.
\<close>

theorem second_end_marker_write:
  "writes (snd (updateReadme (example_libs []) [] example_functions
      (empty_world [(README, TOKEN_START @ TOKEN_END @ ''x'' @ TOKEN_END)])))
   = [(README, TOKEN_START @ [LF, LF]
         @ ''| Category | Function | Description |'' @ [LF]
         @ ''| math | `add(a, b)` | Adds two numbers. |''
         @ [LF, LF] @ TOKEN_END)]"
  by code_simp

text \<open>
  The pattern matches exactly when some end marker begins at least one character after the
  end of some start marker.
\<close>

lemma no_region_no_match:
  assumes "\<not> has_region s"
  shows "regexp_exec s = None"
proof (cases "regexp_exec s")
  case None
  then show ?thesis .
next
  case (Some m)
  obtain i j where m: "m = (i, j)" by (cases m)
  from regexp_exec_Some [of s i j] Some m
  have occ: "occurs_at TOKEN_START s i" "occurs_at TOKEN_END s j" and le: "i + length TOKEN_START + 1 \<le> j"
    by simp_all
  from occ have "i \<in> set (occurrences TOKEN_START s)" "j \<in> set (occurrences TOKEN_END s)"
    by (simp_all add: occurs_in_occurrences TOKEN_START_nonempty TOKEN_END_nonempty)
  moreover from le have "i + length TOKEN_START < j" by simp
  ultimately have "has_region s"
    unfolding has_region_def list_ex_iff by blast
  with assms show ?thesis by simp
qed

lemma exec_from_hit:
  "match_at s i \<noteq> None \<Longrightarrow> i \<in> set positions \<Longrightarrow> exec_from s positions \<noteq> None"
  by (induction positions) (auto split: option.splits)

lemma has_region_match:
  assumes "has_region s"
  shows "regexp_exec s \<noteq> None"
proof -
  from assms obtain i j where i: "occurs_at TOKEN_START s i" "i \<le> length s"
    and j: "occurs_at TOKEN_END s j" "j \<le> length s" and lt: "i + length TOKEN_START < j"
    unfolding has_region_def list_ex_iff by (auto simp: mem_occurrences)
  from j lt have "j \<in> set (rev [i + length TOKEN_START + 1 ..< Suc (length s)])"
    by (simp del: upt_Suc)
  with j(1) have "List.find (occurs_at TOKEN_END s) (rev [i + length TOKEN_START + 1 ..< Suc (length s)]) \<noteq> None"
    by (simp only: find_None_iff) blast
  with i(1) have "match_at s i \<noteq> None"
    by (simp add: match_at_def)
  moreover from i(2) have "i \<in> set [0 ..< Suc (length s)]" by (simp del: upt_Suc)
  ultimately have "exec_from s [0 ..< Suc (length s)] \<noteq> None"
    by (rule exec_from_hit)
  then show ?thesis unfolding regexp_exec_def .
qed

text \<open>
  Claim C10, amended: when the start marker is followed at once by the end marker and no
  end marker of the readme begins one or more characters after the end of a start marker,
  the merge ends without an error, changes no file and writes nothing, even when the
  catalogs are not empty: the pattern needs at least one character between the markers.
\<close>

theorem empty_region_no_write:
  assumes content: "fs w README = Some readme"
    and readme: "readme = before @ TOKEN_START @ TOKEN_END @ after"
    and none: "\<not> has_region readme"
  shows "updateReadme l types functions w = (Inr (), w\<lparr>reads := reads w @ [README]\<rparr>)"
  using content no_region_no_match [OF none] by (rule updateReadme_no_match)

text \<open>
  Claim C10, an instance: an end marker, then the start marker followed at once by a
  second end marker, and a catalog of one function.
\<close>

theorem empty_region_no_write_witness:
  "fs (empty_world [(README, TOKEN_END @ TOKEN_START @ TOKEN_END)]) README
     = Some (TOKEN_END @ TOKEN_START @ TOKEN_END @ [])
   \<and> \<not> has_region (TOKEN_END @ TOKEN_START @ TOKEN_END @ [])
   \<and> length (occurrences TOKEN_END (TOKEN_END @ TOKEN_START @ TOKEN_END @ [])) = 2
   \<and> example_functions \<noteq> []
   \<and> updateReadme (example_libs []) [] example_functions
        (empty_world [(README, TOKEN_END @ TOKEN_START @ TOKEN_END)])
     = (Inr (), (empty_world [(README, TOKEN_END @ TOKEN_START @ TOKEN_END)])\<lparr>reads := [README]\<rparr>)"
proof -
  let ?readme = "TOKEN_END @ TOKEN_START @ TOKEN_END @ []"
  let ?w = "empty_world [(README, TOKEN_END @ TOKEN_START @ TOKEN_END)]"
  have content: "fs ?w README = Some ?readme"
    by (simp add: empty_world_def)
  have none: "\<not> has_region ?readme"
    by code_simp
  have two: "length (occurrences TOKEN_END ?readme) = 2"
    by code_simp
  have nonempty: "example_functions \<noteq> []"
    by (simp add: example_functions_def)
  from empty_region_no_write [OF content refl none, of "example_libs []" "[]" example_functions]
    content none two nonempty
  show ?thesis by (simp add: empty_world_def)
qed

text \<open>
  This is so in particular when the readme holds exactly one start marker and exactly one
  end marker, the second at once after the first.
\<close>

lemma unique_markers_no_region:
  assumes readme: "readme = before @ TOKEN_START @ TOKEN_END @ after"
    and one_start: "length (occurrences TOKEN_START readme) = 1"
    and one_end: "length (occurrences TOKEN_END readme) = 1"
  shows "\<not> has_region readme"
proof
  assume "has_region readme"
  then obtain i j where i: "occurs_at TOKEN_START readme i"
    and j: "occurs_at TOKEN_END readme j" and lt: "i + length TOKEN_START < j"
    unfolding has_region_def list_ex_iff by (auto simp: mem_occurrences)
  have start: "occurs_at TOKEN_START readme (length before)"
    unfolding readme by (rule occurs_at_append)
  have "occurs_at TOKEN_END readme (length (before @ TOKEN_START))"
    using occurs_at_append [of TOKEN_END "before @ TOKEN_START" after] by (simp add: readme)
  then have "end": "occurs_at TOKEN_END readme (length before + length TOKEN_START)" by simp
  from occurrences_unique [OF one_start i start TOKEN_START_nonempty]
    occurrences_unique [OF one_end j "end" TOKEN_END_nonempty] lt
  show False by simp
qed

section \<open>Idempotence\<close>

text \<open>
  Claim C1: a second merge with the same catalogs performs no write. The replacement is
  given to \<open>replace\<close> as a string, so \<open>$1\<close> in the text of a table stands for the region
  that is replaced. With the description \<open>Costs $1.\<close> the first merge of a readme whose
  region is \<open>x\<close> writes \<open>Costs x.\<close>, and the second merge, whose region now is the table of
  the first, writes the readme again, with that table inside the description.
\<close>

theorem dollar_pattern_second_write:
  "writes (snd (updateReadme (example_libs []) [] dollar_functions
      (empty_world [(README, TOKEN_START @ ''x'' @ TOKEN_END)])))
   = [(README, TOKEN_START @ [LF, LF]
         @ ''| Category | Function | Description |'' @ [LF]
         @ ''| math | `pay()` | Costs x. |''
         @ [LF, LF] @ TOKEN_END)]
   \<and> writes (snd (updateReadme (example_libs []) [] dollar_functions
        (snd (updateReadme (example_libs []) [] dollar_functions
          (empty_world [(README, TOKEN_START @ ''x'' @ TOKEN_END)])))))
   = [(README, TOKEN_START @ [LF, LF]
         @ ''| Category | Function | Description |'' @ [LF]
         @ ''| math | `pay()` | Costs x. |''
         @ [LF, LF] @ TOKEN_END),
      (README, TOKEN_START @ [LF, LF]
         @ ''| Category | Function | Description |'' @ [LF]
         @ ''| math | `pay()` | Costs '' @ [LF, LF]
         @ ''| Category | Function | Description |'' @ [LF]
         @ ''| math | `pay()` | Costs x. |'' @ [LF, LF] @ ''. |''
         @ [LF, LF] @ TOKEN_END)]"
  by code_simp

text \<open>
  What a match says about the text: no start marker stands before it, no end marker after
  it, and the text is made of the part before the match, the two markers around a region
  that is not empty, and the part after the match.
\<close>

lemma occurs_at_split:
  assumes "occurs_at pat s i"
  shows "s = take i s @ pat @ drop (i + length pat) s"
proof -
  have a: "take (length pat) (drop i s) = pat"
    using assms by (simp only: occurs_at_def)
  have b: "drop (length pat) (drop i s) = drop (i + length pat) s"
    by (simp add: add.commute)
  have "drop i s = take (length pat) (drop i s) @ drop (length pat) (drop i s)"
    by (simp only: append_take_drop_id)
  then have "drop i s = pat @ drop (i + length pat) s"
    by (simp only: a b)
  then have "take i s @ pat @ drop (i + length pat) s = take i s @ drop i s"
    by simp
  also have "\<dots> = s"
    by simp
  finally show ?thesis by simp
qed

lemma occurs_at_common_prefix:
  "i + length pat \<le> length p \<Longrightarrow> occurs_at pat (p @ x) i = occurs_at pat (p @ y) i"
  by (simp add: occurs_at_def)

lemma occurs_at_shift: "occurs_at pat (p @ x) (length p + k) = occurs_at pat x k"
  by (simp add: occurs_at_def)

lemma exec_from_upt:
  "exec_from s [a ..< b] = Some (i, j)
   \<Longrightarrow> a \<le> i \<and> i < b \<and> match_at s i = Some j \<and> (\<forall>i'. a \<le> i' \<and> i' < i \<longrightarrow> match_at s i' = None)"
proof (induction "b - a" arbitrary: a)
  case 0
  then show ?case by simp
next
  case (Suc n)
  then have "a < b" by simp
  then have list: "[a ..< b] = a # [Suc a ..< b]" by (rule upt_conv_Cons)
  show ?case
  proof (cases "match_at s a")
    case None
    with Suc.prems list have rest: "exec_from s [Suc a ..< b] = Some (i, j)" by simp
    from Suc.hyps(2) have "n = b - Suc a" by simp
    from Suc.hyps(1) [OF this rest] None show ?thesis
      by (metis Suc_leD le_antisym not_less_eq_eq)
  next
    case (Some j')
    with Suc.prems list \<open>a < b\<close> show ?thesis by auto
  qed
qed

lemma find_rev_upt_last:
  "List.find P (rev [lo ..< hi]) = Some j \<Longrightarrow> j < j' \<Longrightarrow> j' < hi \<Longrightarrow> \<not> P j'"
proof (induction hi)
  case 0
  then show ?case by simp
next
  case (Suc hi)
  show ?case
  proof (cases "lo \<le> hi")
    case True
    then have list: "rev [lo ..< Suc hi] = hi # rev [lo ..< hi]" by simp
    show ?thesis
    proof (cases "P hi")
      case True
      with Suc.prems list show ?thesis by simp
    next
      case False
      with Suc.prems list have "List.find P (rev [lo ..< hi]) = Some j" by simp
      from Suc.IH [OF this] Suc.prems False show ?thesis
        by (cases "j' = hi") simp_all
    qed
  next
    case False
    with Suc.prems show ?thesis by simp
  qed
qed

lemma regexp_exec_first_last:
  assumes "regexp_exec s = Some (i, j)"
  shows "(\<forall>i' < i. \<not> occurs_at TOKEN_START s i') \<and> (\<forall>j' > j. \<not> occurs_at TOKEN_END s j')"
proof -
  from assms have run: "exec_from s [0 ..< Suc (length s)] = Some (i, j)"
    by (simp only: regexp_exec_def)
  from exec_from_upt [OF run] have here: "match_at s i = Some j"
    and earlier: "\<And>i'. i' < i \<Longrightarrow> match_at s i' = None"
    by simp_all
  from match_at_Some [OF here] have "end": "occurs_at TOKEN_END s j"
    and le: "i + length TOKEN_START + 1 \<le> j"
    by simp_all
  from occurs_at_bound [OF "end" TOKEN_END_nonempty] have j: "j < Suc (length s)" by simp
  have first: "\<not> occurs_at TOKEN_START s i'" if "i' < i" for i'
  proof
    assume "occurs_at TOKEN_START s i'"
    with earlier [OF that]
    have "List.find (occurs_at TOKEN_END s) (rev [i' + length TOKEN_START + 1 ..< Suc (length s)]) = None"
      by (simp add: match_at_def)
    moreover from that le j have "j \<in> set (rev [i' + length TOKEN_START + 1 ..< Suc (length s)])"
      by (simp del: upt_Suc)
    ultimately show False using "end" by (simp only: find_None_iff) blast
  qed
  from here have found:
    "List.find (occurs_at TOKEN_END s) (rev [i + length TOKEN_START + 1 ..< Suc (length s)]) = Some j"
    by (simp add: match_at_def split: if_splits)
  have last: "\<not> occurs_at TOKEN_END s j'" if "j < j'" for j'
  proof
    assume occ: "occurs_at TOKEN_END s j'"
    from occurs_at_bound [OF occ TOKEN_END_nonempty] have "j' < Suc (length s)" by simp
    from find_rev_upt_last [OF found that this] occ show False by simp
  qed
  from first last show ?thesis by blast
qed

lemma regexp_exec_decompose:
  assumes "regexp_exec s = Some (i, j)"
  obtains before region after where
    "s = before @ TOKEN_START @ region @ TOKEN_END @ after"
    "length before = i" "length before + length TOKEN_START + length region = j" "region \<noteq> []"
proof -
  from regexp_exec_Some [OF assms] have start: "occurs_at TOKEN_START s i"
    and "end": "occurs_at TOKEN_END s j" and le: "i + length TOKEN_START + 1 \<le> j"
    by simp_all
  let ?rest = "drop (i + length TOKEN_START) s"
  let ?k = "j - (i + length TOKEN_START)"
  from occurs_at_bound [OF start TOKEN_START_nonempty] have i: "i + length TOKEN_START \<le> length s" .
  from occurs_at_bound [OF "end" TOKEN_END_nonempty] have j: "j + length TOKEN_END \<le> length s" .
  from le have "occurs_at TOKEN_END ?rest ?k"
    using "end" by (simp add: occurs_at_def)
  from occurs_at_split [OF this] le
  have rest: "?rest = take ?k ?rest @ TOKEN_END @ drop (j + length TOKEN_END) s"
    by (simp add: add.commute)
  from occurs_at_split [OF start]
  have "s = take i s @ TOKEN_START @ ?rest" .
  with rest have "s = take i s @ TOKEN_START @ take ?k ?rest @ TOKEN_END @ drop (j + length TOKEN_END) s"
    by simp
  moreover from i have "length (take i s) = i" by simp
  moreover from le j have len: "length (take ?k ?rest) = ?k" by simp
  moreover from len le have "take ?k ?rest \<noteq> []" by auto
  moreover from len le i have "length (take i s) + length TOKEN_START + length (take ?k ?rest) = j"
    by simp
  ultimately show ?thesis using that by blast
qed

text \<open>
  When the text of the tables holds no dollar sign, the text that a merge produces is a
  fixed point of the merge and the second merge performs no write; and a merge writes
  exactly when the new text differs from the text of the readme.
\<close>

lemma replace_region_fixed_point:
  assumes plain: "CHR ''$'' \<notin> set (region_text l types functions)"
  shows "replace_region (replace_region s (replacement_of l types functions))
           (replacement_of l types functions)
         = replace_region s (replacement_of l types functions)"
proof (cases "regexp_exec s")
  case None
  then show ?thesis by (simp add: replace_region_def)
next
  case (Some m)
  obtain i j where m: "regexp_exec s = Some (i, j)" using Some by (cases m) simp
  from regexp_exec_decompose [OF m] obtain before region after where
    s: "s = before @ TOKEN_START @ region @ TOKEN_END @ after"
    and i: "length before = i" and j: "length before + length TOKEN_START + length region = j"
    and region: "region \<noteq> []"
    by blast
  from regexp_exec_first_last [OF m] i j
  have first: "\<forall>i' < length before. \<not> occurs_at TOKEN_START s i'"
    and last: "\<forall>j' > length before + length TOKEN_START + length region. \<not> occurs_at TOKEN_END s j'"
    by simp_all
  let ?body = "region_text l types functions"
  let ?new = "[LF, LF] @ ?body @ [LF, LF]"
  let ?t = "before @ TOKEN_START @ ?new @ TOKEN_END @ after"
  have subst: "\<And>m' s' p caps. getSubstitution m' s' p caps (replacement_of l types functions)
      = TOKEN_START @ ?new @ TOKEN_END"
    using plain by (simp add: getSubstitution_replacement getSubstitution_plain_all)
  have once: "replace_region s (replacement_of l types functions) = ?t"
    using replace_region_region [OF s region first last] by (simp add: subst)
  have first': "\<forall>i' < length before. \<not> occurs_at TOKEN_START ?t i'"
  proof (intro allI impI)
    fix i' assume "i' < length before"
    then have "i' + length TOKEN_START \<le> length (before @ TOKEN_START)" by simp
    from occurs_at_common_prefix [OF this, of "?new @ TOKEN_END @ after" "region @ TOKEN_END @ after"]
      first \<open>i' < length before\<close>
    show "\<not> occurs_at TOKEN_START ?t i'" by (simp add: s)
  qed
  have last': "\<forall>j' > length before + length TOKEN_START + length ?new. \<not> occurs_at TOKEN_END ?t j'"
  proof (intro allI impI)
    fix j' assume far: "length before + length TOKEN_START + length ?new < j'"
    define k where "k = j' - length (before @ TOKEN_START @ ?new)"
    with far have k: "0 < k" and j': "j' = length (before @ TOKEN_START @ ?new) + k" by simp_all
    have "occurs_at TOKEN_END ?t j' = occurs_at TOKEN_END (TOKEN_END @ after) k"
      using occurs_at_shift [of TOKEN_END "before @ TOKEN_START @ ?new" "TOKEN_END @ after" k]
      unfolding j' by simp
    also have "\<dots> = occurs_at TOKEN_END s (length (before @ TOKEN_START @ region) + k)"
      using occurs_at_shift [of TOKEN_END "before @ TOKEN_START @ region" "TOKEN_END @ after" k]
      unfolding s by simp
    also have "\<dots> = False"
      using last k by simp
    finally show "\<not> occurs_at TOKEN_END ?t j'" by simp
  qed
  have "replace_region ?t (replacement_of l types functions) = ?t"
    using replace_region_region [OF refl _ first' last', of "replacement_of l types functions"]
    by (simp add: subst)
  with once show ?thesis by simp
qed

lemma merge_idempotent_without_dollar:
  assumes content: "fs w README = Some readme"
    and plain: "CHR ''$'' \<notin> set (region_text l types functions)"
  shows "writes (snd (updateReadme l types functions (snd (updateReadme l types functions w))))
         = writes (snd (updateReadme l types functions w))"
proof -
  let ?new = "replace_region readme (replacement_of l types functions)"
  define w1 where "w1 = snd (updateReadme l types functions w)"
  have "fs w1 README = Some ?new"
    unfolding w1_def using content
    by (simp add: updateReadme_def readFileSync_def writeFileSync_def Let_def)
  moreover have "replace_region ?new (replacement_of l types functions) = ?new"
    using plain by (rule replace_region_fixed_point)
  ultimately have "writes (snd (updateReadme l types functions w1)) = writes w1"
    by (simp add: updateReadme_def readFileSync_def Let_def)
  then show ?thesis by (simp only: w1_def)
qed

lemma write_iff_changed:
  assumes "fs w README = Some readme"
  shows "writes (snd (updateReadme l types functions w)) = writes w
         \<longleftrightarrow> replace_region readme (replacement_of l types functions) = readme"
  using assms by (simp add: updateReadme_def readFileSync_def writeFileSync_def Let_def)

end
